theory Spec2Isabelle
  imports Complex_Main
begin

section \<open>Numbers and points\<close>

text \<open>
  The program computes on JavaScript numbers. Coordinates and parameters are modelled
  as real numbers; arithmetic on them is exact. Where an operation of the source has
  no real result, the model follows JavaScript: \<open>Math.sqrt\<close> of a negative number
  is \<open>NaN\<close>, a positive number divided by zero is \<open>Infinity\<close>, zero divided by zero
  is \<open>NaN\<close>. Rounding and overflow of IEEE doubles are not modelled there; the range of
  doubles is modelled for the curvature estimator, in a section of its own.
\<close>

datatype jsnum = Num real | PosInf | NaN

record point =
  px :: real
  py :: real

type_synonym path = "point list"

definition hypot :: "real \<Rightarrow> real \<Rightarrow> real" where
  "hypot a b = sqrt (a * a + b * b)"

text \<open>\<open>function distance(a,b){ return Math.hypot(a.x-b.x, a.y-b.y); }\<close>\<close>

definition distance :: "point \<Rightarrow> point \<Rightarrow> real" where
  "distance a b = hypot (px a - px b) (py a - py b)"

text \<open>\<open>Math.round\<close> rounds to the nearest integer, halves towards plus infinity.\<close>

definition js_round :: "real \<Rightarrow> int" where
  "js_round r = \<lfloor>r + 1 / 2\<rfloor>"

section \<open>Path smoother\<close>

text \<open>
  One round of \<open>smoothPath\<close>: \<open>nxt=[cur[0]]\<close>, then for every segment
  \<open>(cur[i], cur[i+1])\<close> the two points \<open>q\<close> and \<open>r\<close> at 25% and 75%,
  then \<open>cur[cur.length-1]\<close>.
\<close>

definition cutq :: "point \<Rightarrow> point \<Rightarrow> point" where
  "cutq p0 p1 = \<lparr>px = 0.75 * px p0 + 0.25 * px p1, py = 0.75 * py p0 + 0.25 * py p1\<rparr>"

definition cutr :: "point \<Rightarrow> point \<Rightarrow> point" where
  "cutr p0 p1 = \<lparr>px = 0.25 * px p0 + 0.75 * px p1, py = 0.25 * py p0 + 0.75 * py p1\<rparr>"

fun cuts :: "path \<Rightarrow> path" where
  "cuts (p0 # p1 # rest) = cutq p0 p1 # cutr p0 p1 # cuts (p1 # rest)"
| "cuts [p] = []"
| "cuts [] = []"

definition smoothRound :: "path \<Rightarrow> path" where
  "smoothRound cur = hd cur # cuts cur @ [last cur]"

text \<open>
  \<open>smoothPath(pts, iters)\<close>: fewer than 3 points are returned as they are (a copy);
  otherwise \<open>iters\<close> rounds. Every round keeps at least 3 points, so \<open>cur[0]\<close> and
  \<open>cur[cur.length-1]\<close> exist.
\<close>

definition smoothPath :: "path \<Rightarrow> nat \<Rightarrow> path" where
  "smoothPath pts iters = (if length pts < 3 then pts else (smoothRound ^^ iters) pts)"

section \<open>Path resampler\<close>

text \<open>
  The cumulative distances of \<open>resamplePath\<close>: \<open>d=[0]\<close>, then
  \<open>d.push(d[i-1]+distance(pts[i],pts[i-1]))\<close> for every further point;
  \<open>cumDist acc pts\<close> is the part of \<open>d\<close> after an entry \<open>acc\<close>.
\<close>

fun cumDist :: "real \<Rightarrow> path \<Rightarrow> real list" where
  "cumDist acc (a # b # rest) = (acc + distance b a) # cumDist (acc + distance b a) (b # rest)"
| "cumDist acc [a] = []"
| "cumDist acc [] = []"

text \<open>\<open>let j=0; while(j<d.length-1 && d[j+1]<t) j++;\<close>\<close>

function seek :: "real list \<Rightarrow> real \<Rightarrow> nat \<Rightarrow> nat" where
  "seek d t j = (if j < length d - 1 \<and> d ! (j + 1) < t then seek d t (j + 1) else j)"
  by pat_completeness auto
termination
  by (relation "measure (\<lambda>(d, t, j). length d - 1 - j)") auto

text \<open>\<open>x || 1\<close> on a number: 0 (and \<open>NaN\<close>, which no real is) gives 1.\<close>

definition orElse1 :: "real \<Rightarrow> real" where
  "orElse1 r = (if r = 0 then 1 else r)"

text \<open>The body of the output loop of \<open>resamplePath\<close> for one \<open>i\<close>.\<close>

definition samplePoint :: "path \<Rightarrow> real list \<Rightarrow> real \<Rightarrow> nat \<Rightarrow> nat \<Rightarrow> point" where
  "samplePoint pts d totalLen n i =
     (let t = (real i / real n) * totalLen;
          j = seek d t 0;
          tt = (t - d ! j) / orElse1 (d ! (j + 1) - d ! j)
      in \<lparr>px = px (pts ! j) + (px (pts ! (j + 1)) - px (pts ! j)) * tt,
          py = py (pts ! j) + (py (pts ! (j + 1)) - py (pts ! j)) * tt\<rparr>)"

text \<open>
  \<open>resamplePath(pts, spacing)\<close>. With \<open>spacing = 0\<close> the source computes
  \<open>total/spacing\<close> as \<open>Infinity\<close> (the loop \<open>i<=n\<close> never ends: \<open>None\<close>) or, for
  \<open>total = 0\<close>, as \<open>NaN\<close> (the loop does not run: the empty path). Otherwise
  \<open>n = Math.max(2, Math.round(total/spacing))\<close> and the loop runs for
  \<open>i = 0, ..., n\<close>.
\<close>

definition resamplePath :: "path \<Rightarrow> real \<Rightarrow> path option" where
  "resamplePath pts spacing =
     (if length pts < 2 then Some pts
      else
        let d = 0 # cumDist 0 pts;
            totalLen = d ! (length d - 1)
        in if spacing = 0 then (if totalLen = 0 then Some [] else None)
           else
             let n = nat (max 2 (js_round (totalLen / spacing)))
             in Some (map (samplePoint pts d totalLen n) [0..<n + 1]))"

section \<open>Curvature estimator\<close>

record curvature =
  kappa :: real
  tx :: real
  ty :: real

text \<open>The body of the loop of \<open>computeCurvature\<close> for one \<open>i\<close>.\<close>

definition curvatureAt :: "path \<Rightarrow> nat \<Rightarrow> curvature" where
  "curvatureAt pts i =
     (let n = length pts;
          p0 = pts ! ((i + n - 1) mod n);
          p1 = pts ! i;
          p2 = pts ! ((i + 1) mod n);
          dx1 = px p1 - px p0; dy1 = py p1 - py p0;
          dx2 = px p2 - px p1; dy2 = py p2 - py p1;
          cross = dx1 * dy2 - dy1 * dx2;
          len1 = hypot dx1 dy1;
          len2 = hypot dx2 dy2;
          denom = orElse1 (len1 * len2 * (len1 + len2));
          k = cross / denom;
          u = (dx1 + dx2) / 2; w = (dy1 + dy2) / 2;
          tlen = orElse1 (hypot u w)
      in \<lparr>kappa = k, tx = u / tlen, ty = w / tlen\<rparr>)"

definition computeCurvature :: "path \<Rightarrow> curvature list" where
  "computeCurvature pts = map (curvatureAt pts) [0..<length pts]"

section \<open>Curvature estimator on the range of doubles\<close>

text \<open>
  Whether the numbers that \<open>computeCurvature\<close> returns are finite depends on the range of
  IEEE doubles, which the real numbers do not have. For this one function the model is
  therefore repeated over values that are a real number, plus or minus \<open>Infinity\<close>, or
  \<open>NaN\<close>. A real result of magnitude at least \<open>2^1024 - 2^970\<close> rounds to an infinity (it
  lies beyond the midpoint above the largest double) and one of magnitude at most
  \<open>2^-1075\<close> rounds to zero (it lies at or below the midpoint under the smallest double);
  every other result is kept exact. So the range is modelled, the rounding of the mantissa
  is not, and zero has no sign (the sign of a zero could only show in a division by zero).
  The operations on infinities and \<open>NaN\<close> are those of IEEE 754 and of \<open>Math.hypot\<close>.
\<close>

datatype double = Dbl real | DInf | DNegInf | DNaN

definition overflowAt :: real where
  "overflowAt = 2 ^ 1024 - 2 ^ 970"

definition underflowAt :: real where
  "underflowAt = 1 / 2 ^ 1075"

definition fl :: "real \<Rightarrow> double" where
  "fl x = (if overflowAt \<le> x then DInf
           else if x \<le> - overflowAt then DNegInf
           else if \<bar>x\<bar> \<le> underflowAt then Dbl 0
           else Dbl x)"

fun d_neg :: "double \<Rightarrow> double" where
  "d_neg (Dbl a) = Dbl (- a)"
| "d_neg DInf = DNegInf"
| "d_neg DNegInf = DInf"
| "d_neg DNaN = DNaN"

fun d_add :: "double \<Rightarrow> double \<Rightarrow> double" where
  "d_add (Dbl a) (Dbl b) = fl (a + b)"
| "d_add DNaN _ = DNaN"
| "d_add _ DNaN = DNaN"
| "d_add DInf DNegInf = DNaN"
| "d_add DNegInf DInf = DNaN"
| "d_add DInf _ = DInf"
| "d_add _ DInf = DInf"
| "d_add DNegInf _ = DNegInf"
| "d_add _ DNegInf = DNegInf"

definition d_sub :: "double \<Rightarrow> double \<Rightarrow> double" where
  "d_sub a b = d_add a (d_neg b)"

fun d_mul :: "double \<Rightarrow> double \<Rightarrow> double" where
  "d_mul (Dbl a) (Dbl b) = fl (a * b)"
| "d_mul DNaN _ = DNaN"
| "d_mul _ DNaN = DNaN"
| "d_mul (Dbl a) DInf = (if a = 0 then DNaN else if 0 < a then DInf else DNegInf)"
| "d_mul (Dbl a) DNegInf = (if a = 0 then DNaN else if 0 < a then DNegInf else DInf)"
| "d_mul DInf (Dbl b) = (if b = 0 then DNaN else if 0 < b then DInf else DNegInf)"
| "d_mul DNegInf (Dbl b) = (if b = 0 then DNaN else if 0 < b then DNegInf else DInf)"
| "d_mul DInf DInf = DInf"
| "d_mul DInf DNegInf = DNegInf"
| "d_mul DNegInf DInf = DNegInf"
| "d_mul DNegInf DNegInf = DInf"

fun d_div :: "double \<Rightarrow> double \<Rightarrow> double" where
  "d_div (Dbl a) (Dbl b) =
     (if b = 0 then (if a = 0 then DNaN else if 0 < a then DInf else DNegInf)
      else fl (a / b))"
| "d_div DNaN _ = DNaN"
| "d_div _ DNaN = DNaN"
| "d_div (Dbl a) DInf = Dbl 0"
| "d_div (Dbl a) DNegInf = Dbl 0"
| "d_div DInf (Dbl b) = (if 0 \<le> b then DInf else DNegInf)"
| "d_div DNegInf (Dbl b) = (if 0 \<le> b then DNegInf else DInf)"
| "d_div DInf DInf = DNaN"
| "d_div DInf DNegInf = DNaN"
| "d_div DNegInf DInf = DNaN"
| "d_div DNegInf DNegInf = DNaN"

text \<open>\<open>Math.hypot\<close>: an infinite argument gives \<open>Infinity\<close>, also beside a \<open>NaN\<close>.\<close>

fun d_hypot :: "double \<Rightarrow> double \<Rightarrow> double" where
  "d_hypot (Dbl a) (Dbl b) = fl (hypot a b)"
| "d_hypot DInf _ = DInf"
| "d_hypot DNegInf _ = DInf"
| "d_hypot _ DInf = DInf"
| "d_hypot _ DNegInf = DInf"
| "d_hypot _ _ = DNaN"

text \<open>\<open>x || 1\<close>: zero and \<open>NaN\<close> are the falsy numbers.\<close>

definition d_or1 :: "double \<Rightarrow> double" where
  "d_or1 x = (if x = Dbl 0 \<or> x = DNaN then Dbl 1 else x)"

text \<open>\<open>Number.isFinite\<close>\<close>

fun isFinite :: "double \<Rightarrow> bool" where
  "isFinite (Dbl a) = True"
| "isFinite _ = False"

record curvatureD =
  kappaD :: double
  txD :: double
  tyD :: double

text \<open>
  The body of the loop of \<open>computeCurvature\<close> for one \<open>i\<close>, operation by operation: the
  two divisors \<open>denom\<close> and \<open>tlen\<close>, and the element pushed.
\<close>

record loopBodyD =
  denomD :: double
  tlenD :: double
  pushed :: curvatureD

definition curvatureBodyD :: "path \<Rightarrow> nat \<Rightarrow> loopBodyD" where
  "curvatureBodyD pts i =
     (let n = length pts;
          p0 = pts ! ((i + n - 1) mod n);
          p1 = pts ! i;
          p2 = pts ! ((i + 1) mod n);
          dx1 = d_sub (Dbl (px p1)) (Dbl (px p0)); dy1 = d_sub (Dbl (py p1)) (Dbl (py p0));
          dx2 = d_sub (Dbl (px p2)) (Dbl (px p1)); dy2 = d_sub (Dbl (py p2)) (Dbl (py p1));
          cross = d_sub (d_mul dx1 dy2) (d_mul dy1 dx2);
          len1 = d_hypot dx1 dy1;
          len2 = d_hypot dx2 dy2;
          denom = d_or1 (d_mul (d_mul len1 len2) (d_add len1 len2));
          k = d_div cross denom;
          u = d_div (d_add dx1 dx2) (Dbl 2); w = d_div (d_add dy1 dy2) (Dbl 2);
          tlen = d_or1 (d_hypot u w)
      in \<lparr>denomD = denom, tlenD = tlen,
          pushed = \<lparr>kappaD = k, txD = d_div u tlen, tyD = d_div w tlen\<rparr>\<rparr>)"

definition computeCurvatureD :: "path \<Rightarrow> curvatureD list" where
  "computeCurvatureD pts = map (\<lambda>i. pushed (curvatureBodyD pts i)) [0..<length pts]"

section \<open>Lap simulator\<close>

text \<open>
  The \<open>options\<close> of \<open>simulateLap\<close>. The source reads \<open>pxToMeter\<close> and \<open>tyreMu\<close>
  from the component's state and the other three from \<open>options\<close>; every caller passes
  the state's values as \<open>options\<close>, so one bundle holds all five.
\<close>

record physics =
  pxToMeter :: real
  tyreMu :: real
  maxBrakeAccel :: real
  enginePower :: real
  vTop :: real

record sim =
  time :: jsnum
  speedProfile :: "jsnum list"
  dists :: "real list"
  speedLimit :: "real list"

text \<open>
  \<open>dist[i]\<close> for \<open>i < n-1\<close> is the length of the segment to the next point, and
  \<open>dist[n-1]\<close> closes the loop; both scaled by \<open>px2m\<close>.
\<close>

definition segDists :: "path \<Rightarrow> real \<Rightarrow> real list" where
  "segDists path px2m =
     (let n = length path
      in map (\<lambda>i. hypot (px (path ! (i + 1)) - px (path ! i))
                        (py (path ! (i + 1)) - py (path ! i)) * px2m) [0..<n - 1]
         @ [hypot (px (path ! 0) - px (path ! (n - 1)))
                  (py (path ! 0) - py (path ! (n - 1))) * px2m])"

text \<open>
  \<open>Math.abs(c.kappa)/px2m\<close>: dividing by zero gives \<open>Infinity\<close> for a non-zero
  curvature and \<open>NaN\<close> for a zero one.
\<close>

definition curvPerMeter :: "real \<Rightarrow> real \<Rightarrow> jsnum" where
  "curvPerMeter k px2m =
     (if px2m \<noteq> 0 then Num (\<bar>k\<bar> / px2m) else if k = 0 then NaN else PosInf)"

definition g :: real where
  "g = 9.81"

text \<open>
  \<open>k>1e-8 ? Math.sqrt(Math.max(0.5, tyreMu*g / k)) : options.vTop\<close>. A comparison
  with \<open>NaN\<close> is false; \<open>tyreMu*g / Infinity\<close> is zero.
\<close>

definition lateralLimit :: "physics \<Rightarrow> jsnum \<Rightarrow> real" where
  "lateralLimit opts k =
     (case k of
        Num r \<Rightarrow> if r > 0.00000001 then sqrt (max 0.5 (tyreMu opts * g / r)) else vTop opts
      | PosInf \<Rightarrow> sqrt (max 0.5 0)
      | NaN \<Rightarrow> vTop opts)"

definition speedLimits :: "path \<Rightarrow> physics \<Rightarrow> real list" where
  "speedLimits path opts =
     map (\<lambda>l. min l (vTop opts))
       (map (lateralLimit opts)
          (map (\<lambda>c. curvPerMeter (kappa c) (pxToMeter opts)) (computeCurvature path)))"

text \<open>
  \<open>Math.sqrt(v*v + e)\<close> for a speed \<open>v\<close> that may be \<open>NaN\<close> and a real \<open>e\<close>:
  \<open>NaN\<close> when the argument is negative or \<open>v\<close> is \<open>NaN\<close>.
\<close>

fun sqrtSq :: "jsnum \<Rightarrow> real \<Rightarrow> jsnum" where
  "sqrtSq (Num r) e = (if r * r + e < 0 then NaN else Num (sqrt (r * r + e)))"
| "sqrtSq PosInf e = PosInf"
| "sqrtSq NaN e = NaN"

text \<open>\<open>Math.min(a, x)\<close> and \<open>Math.max(a, x)\<close> for a real \<open>a\<close>: \<open>NaN\<close> when \<open>x\<close> is.\<close>

fun js_min :: "real \<Rightarrow> jsnum \<Rightarrow> jsnum" where
  "js_min a (Num r) = Num (min a r)"
| "js_min a PosInf = Num a"
| "js_min a NaN = NaN"

fun js_max :: "real \<Rightarrow> jsnum \<Rightarrow> jsnum" where
  "js_max a (Num r) = Num (max a r)"
| "js_max a PosInf = PosInf"
| "js_max a NaN = NaN"

text \<open>\<open>a > b\<close> and \<open>a < b\<close>: false when either side is \<open>NaN\<close>.\<close>

fun js_gt :: "jsnum \<Rightarrow> jsnum \<Rightarrow> bool" where
  "js_gt (Num a) (Num b) = (a > b)"
| "js_gt PosInf (Num b) = True"
| "js_gt _ _ = False"

definition js_lt :: "jsnum \<Rightarrow> jsnum \<Rightarrow> bool" where
  "js_lt a b = js_gt b a"

text \<open>\<open>d / x\<close> for a real \<open>d\<close> and \<open>x\<close> not zero; \<open>a + b\<close>.\<close>

fun js_divBy :: "real \<Rightarrow> jsnum \<Rightarrow> jsnum" where
  "js_divBy d (Num r) = Num (d / r)"
| "js_divBy d PosInf = Num 0"
| "js_divBy d NaN = NaN"

fun js_add :: "jsnum \<Rightarrow> jsnum \<Rightarrow> jsnum" where
  "js_add (Num a) (Num b) = Num (a + b)"
| "js_add NaN _ = NaN"
| "js_add _ NaN = NaN"
| "js_add _ _ = PosInf"

text \<open>
  \<open>Math.min(options.enginePower / Math.max(1, options.enginePower/1e3), 3.5)\<close>
\<close>

definition a_forward :: "physics \<Rightarrow> real" where
  "a_forward opts = min (enginePower opts / max 1 (enginePower opts / 1000)) 3.5"

text \<open>The body of the forward loop for one \<open>i\<close>, on the array \<open>v\<close>.\<close>

definition forwardStep :: "physics \<Rightarrow> real list \<Rightarrow> real list \<Rightarrow> jsnum list \<Rightarrow> nat \<Rightarrow> jsnum list" where
  "forwardStep opts lims d v i =
     (let vmax = sqrtSq (v ! (i - 1)) (2 * a_forward opts * d ! (i - 1))
      in v[i := js_min (min (lims ! i) (vTop opts)) vmax])"

text \<open>
  \<open>v = new Array(n).fill(0); v[0] = Math.min(speedLimit[0], options.vTop);\<close> and the
  loop \<open>for(let i=1;i<n;i++)\<close>.
\<close>

definition forwardPass :: "physics \<Rightarrow> real list \<Rightarrow> real list \<Rightarrow> nat \<Rightarrow> jsnum list" where
  "forwardPass opts lims d n =
     foldl (forwardStep opts lims d)
       ((replicate n (Num 0))[0 := Num (min (lims ! 0) (vTop opts))]) [1..<n]"

text \<open>The body of the backward loop for one \<open>i\<close>.\<close>

definition backwardStep :: "physics \<Rightarrow> real list \<Rightarrow> jsnum list \<Rightarrow> nat \<Rightarrow> jsnum list" where
  "backwardStep opts d v i =
     (let v_allow = sqrtSq (v ! (i + 1)) (2 * maxBrakeAccel opts * d ! i)
      in if js_gt (v ! i) v_allow then v[i := js_max 0 v_allow] else v)"

text \<open>One round \<open>for(let i=n-2;i>=0;i--)\<close>, and the three rounds.\<close>

definition backwardRound :: "physics \<Rightarrow> real list \<Rightarrow> nat \<Rightarrow> jsnum list \<Rightarrow> jsnum list" where
  "backwardRound opts d n v = foldl (backwardStep opts d) v (rev [0..<n - 1])"

definition backwardPass :: "physics \<Rightarrow> real list \<Rightarrow> nat \<Rightarrow> jsnum list \<Rightarrow> jsnum list" where
  "backwardPass opts d n v = (backwardRound opts d n ^^ 3) v"

text \<open>\<open>ti = d / Math.max(0.1, vi); totalT += ti\<close>, from \<open>totalT = 0\<close>.\<close>

definition lapTime :: "real list \<Rightarrow> jsnum list \<Rightarrow> nat \<Rightarrow> jsnum" where
  "lapTime d v n = foldl (\<lambda>totalT i. js_add totalT (js_divBy (d ! i) (js_max 0.1 (v ! i)))) (Num 0) [0..<n]"

text \<open>\<open>simulateLap(path, options)\<close>; \<open>None\<close> is the source's \<open>null\<close>.\<close>

definition simulateLap :: "path \<Rightarrow> physics \<Rightarrow> sim option" where
  "simulateLap path opts =
     (if length path < 2 then None
      else
        let n = length path;
            d = segDists path (pxToMeter opts);
            lims = speedLimits path opts;
            v = backwardPass opts d n (forwardPass opts lims d n)
        in Some \<lparr>time = lapTime d v n, speedProfile = v, dists = d, speedLimit = lims\<rparr>)"

section \<open>Centerline builder\<close>

text \<open>
  The midpoints \<open>{x:(left[i].x+right[i].x)/2, y:(left[i].y+right[i].y)/2}\<close> for
  \<open>i < Math.min(left.length,right.length)\<close>.
\<close>

definition centerOf :: "path \<Rightarrow> path \<Rightarrow> path" where
  "centerOf left right =
     map (\<lambda>i. \<lparr>px = (px (left ! i) + px (right ! i)) / 2, py = (py (left ! i) + py (right ! i)) / 2\<rparr>)
       [0..<min (length left) (length right)]"

text \<open>
  \<open>computeCenterlineFromEdges\<close>: the value it stores as centerline, or \<open>None\<close> where it
  alerts, with fewer than 5 points on an edge. (A resampling at spacing 3 always returns.)
\<close>

definition computeCenterlineFromEdges :: "path \<Rightarrow> path \<Rightarrow> path option" where
  "computeCenterlineFromEdges leftPoints rightPoints =
     (if length leftPoints < 5 \<or> length rightPoints < 5 then None
      else
        case (resamplePath leftPoints 3, resamplePath rightPoints 3) of
          (Some left, Some right) \<Rightarrow> Some (smoothPath (centerOf left right) 4)
        | _ \<Rightarrow> None)"

section \<open>Racing-line optimizer\<close>

text \<open>The exception a read of a property of \<open>undefined\<close> throws.\<close>

datatype error = TypeError

record normal =
  nx :: real
  ny :: real

record bound =
  bmin :: real
  bmax :: real

text \<open>\<open>xs[i]\<close> for an integral number \<open>i\<close>: \<open>undefined\<close> (here \<open>None\<close>) out of range.\<close>

definition elemAt :: "'a list \<Rightarrow> int \<Rightarrow> 'a option" where
  "elemAt xs i = (if 0 \<le> i \<and> i < int (length xs) then Some (xs ! nat i) else None)"

text \<open>The body of the loop that fills \<open>normals\<close>, for one \<open>i\<close>.\<close>

definition normalAt :: "path \<Rightarrow> nat \<Rightarrow> normal" where
  "normalAt candidate i =
     (let c = length candidate;
          p1 = candidate ! ((i + 1) mod c);
          p0 = candidate ! ((i + c - 1) mod c);
          u = px p1 - px p0; w = py p1 - py p0;
          len = orElse1 (hypot u w)
      in \<lparr>nx = - w / len, ny = u / len\<rparr>)"

definition normalsOf :: "path \<Rightarrow> normal list" where
  "normalsOf candidate = map (normalAt candidate) [0..<length candidate]"

text \<open>
  The body of the loop that fills \<open>allowed\<close>, for one \<open>i\<close>: the edge points
  \<open>left[Math.round(i*left.length/candidate.length)]\<close> and the same for \<open>right\<close>; reading
  \<open>lp.x\<close> or \<open>rp.x\<close> of an \<open>undefined\<close> edge point throws.
\<close>

definition allowedAt :: "path \<Rightarrow> path \<Rightarrow> path \<Rightarrow> normal list \<Rightarrow> nat \<Rightarrow> error + bound" where
  "allowedAt left right candidate normals i =
     (let c = candidate ! i;
          nm = normals ! i;
          lp = elemAt left (js_round (real i * real (length left) / real (length candidate)));
          rp = elemAt right (js_round (real i * real (length right) / real (length candidate)))
      in case lp of
           None \<Rightarrow> Inl TypeError
         | Some l \<Rightarrow>
             (case rp of
                None \<Rightarrow> Inl TypeError
              | Some r \<Rightarrow>
                  let dl = (px l - px c) * nx nm + (py l - py c) * ny nm;
                      dr = (px r - px c) * nx nm + (py r - py c) * ny nm
                  in Inr \<lparr>bmin = min dl dr, bmax = max dl dr\<rparr>))"

text \<open>A loop over a list that stops at the first exception.\<close>

fun mapE :: "('a \<Rightarrow> error + 'b) \<Rightarrow> 'a list \<Rightarrow> error + 'b list" where
  "mapE f [] = Inr []"
| "mapE f (x # xs) =
     (case f x of
        Inl e \<Rightarrow> Inl e
      | Inr y \<Rightarrow> (case mapE f xs of Inl e \<Rightarrow> Inl e | Inr ys \<Rightarrow> Inr (y # ys)))"

definition allowedOf :: "path \<Rightarrow> path \<Rightarrow> path \<Rightarrow> normal list \<Rightarrow> error + bound list" where
  "allowedOf left right candidate normals =
     mapE (allowedAt left right candidate normals) [0..<length candidate]"

text \<open>
  The state of the hill climb: the variables \<open>candidate\<close>, \<open>bestTime\<close> and \<open>improved\<close>,
  the number of calls of \<open>Math.random\<close> so far, and the values passed to \<open>setLapTime\<close>,
  in order.
\<close>

record optState =
  candidate :: path
  bestTime :: jsnum
  improved :: bool
  draws :: nat
  lapTimes :: "jsnum list"

text \<open>
  \<open>candidate.map((p,idx)=> idx===i ? {x: p.x + normals[idx].nx * step, ...} : {x:p.x, y:p.y})\<close>:
  \<open>normals[idx]\<close> is read for \<open>idx = i\<close> only, and throws when it is \<open>undefined\<close>.
\<close>

definition shifted :: "path \<Rightarrow> normal list \<Rightarrow> int \<Rightarrow> real \<Rightarrow> error + path" where
  "shifted cand normals i step =
     (if 0 \<le> i \<and> i < int (length cand) then
        (case elemAt normals i of
           None \<Rightarrow> Inl TypeError
         | Some nm \<Rightarrow>
             Inr (cand[nat i := \<lparr>px = px (cand ! nat i) + nx nm * step,
                                py = py (cand ! nat i) + ny nm * step\<rparr>]))
      else Inr cand)"

text \<open>
  One try of the inner loop, in iteration \<open>it\<close>. \<open>rnd k\<close> is the value of the \<open>k\<close>-th
  call of \<open>Math.random\<close>. Reading \<open>allowed[i].max\<close> throws when \<open>allowed[i]\<close> is
  \<open>undefined\<close>.
\<close>

definition tryShift ::
  "physics \<Rightarrow> normal list \<Rightarrow> bound list \<Rightarrow> (nat \<Rightarrow> real) \<Rightarrow> nat \<Rightarrow> nat \<Rightarrow> optState \<Rightarrow> error + optState" where
  "tryShift opts normals allowed rnd iterations it s =
     (let i = \<lfloor>rnd (draws s) * real (length (candidate s))\<rfloor>
      in case elemAt allowed i of
           None \<Rightarrow> Inl TypeError
         | Some b \<Rightarrow>
             let range = min (bmax b - bmin b) 60;
                 step = (rnd (draws s + 1) * 2 - 1) * range
                          * (0.08 + 0.92 * (1 - real it / real iterations))
             in case shifted (candidate s) normals i step of
                  Inl e \<Rightarrow> Inl e
                | Inr newCandidate \<Rightarrow>
                    let sm = smoothPath newCandidate 2;
                        s' = s\<lparr>draws := draws s + 2\<rparr>
                    in Inr (case simulateLap sm opts of
                              None \<Rightarrow> s'
                            | Some sim \<Rightarrow>
                                if js_lt (time sim) (bestTime s)
                                then s'\<lparr>candidate := sm, bestTime := time sim, improved := True,
                                        lapTimes := lapTimes s @ [time sim]\<rparr>
                                else s'))"

text \<open>
  \<open>k\<close> tries in a row; an exception ends them, and the state is the one of the throw.
\<close>

fun tries ::
  "physics \<Rightarrow> normal list \<Rightarrow> bound list \<Rightarrow> (nat \<Rightarrow> real) \<Rightarrow> nat \<Rightarrow> nat \<Rightarrow> nat \<Rightarrow> optState
     \<Rightarrow> error option \<times> optState" where
  "tries opts normals allowed rnd iterations it 0 s = (None, s)"
| "tries opts normals allowed rnd iterations it (Suc k) s =
     (case tryShift opts normals allowed rnd iterations it s of
        Inl e \<Rightarrow> (Some e, s)
      | Inr s' \<Rightarrow> tries opts normals allowed rnd iterations it k s')"

text \<open>
  The loop \<open>for(let it=0; it<iterations; it++)\<close>, from iteration \<open>it\<close> on: 30 tries,
  then \<open>if(!improved && it>30) break\<close>. The budget is a natural number: the caller
  passes the result of \<open>parseInt\<close>, and a negative budget runs no iteration, as 0 does.
\<close>

function climb ::
  "physics \<Rightarrow> normal list \<Rightarrow> bound list \<Rightarrow> (nat \<Rightarrow> real) \<Rightarrow> nat \<Rightarrow> nat \<Rightarrow> optState
     \<Rightarrow> error option \<times> optState" where
  "climb opts normals allowed rnd iterations it s =
     (if it < iterations then
        (case tries opts normals allowed rnd iterations it 30 (s\<lparr>improved := False\<rparr>) of
           (Some e, s') \<Rightarrow> (Some e, s')
         | (None, s') \<Rightarrow>
             if \<not> improved s' \<and> it > 30 then (None, s')
             else climb opts normals allowed rnd iterations (it + 1) s')
      else (None, s))"
  by pat_completeness auto
termination
  by (relation "measure (\<lambda>(opts, normals, allowed, rnd, iterations, it, s). iterations - it)") auto

text \<open>
  How a call of \<open>optimizeRacingLine\<close> ends: with the alert, with an exception while the
  corridor is built, with \<open>return\<close> after a failed baseline simulation, with an exception
  in the loop (the state is the one of the throw), after the loop, or never (a resampling
  that does not return).
\<close>

datatype outcome =
  Alerted | CorridorThrew error | NoBaseline | LoopThrew error optState | Finished optState
  | NoReturn

text \<open>
  The second half of \<open>optimizeRacingLine\<close>: the baseline simulation of the seed path, the
  loop, and the final \<open>setLapTime(bestTime)\<close>.
\<close>

definition hillClimb ::
  "physics \<Rightarrow> normal list \<Rightarrow> bound list \<Rightarrow> (nat \<Rightarrow> real) \<Rightarrow> nat \<Rightarrow> path \<Rightarrow> outcome" where
  "hillClimb opts normals allowed rnd iterations seed =
     (case simulateLap seed opts of
        None \<Rightarrow> NoBaseline
      | Some bestSim \<Rightarrow>
          (case climb opts normals allowed rnd iterations 0
                  \<lparr>candidate = seed, bestTime = time bestSim, improved = False, draws = 0,
                   lapTimes = [time bestSim]\<rparr> of
             (Some e, s) \<Rightarrow> LoopThrew e s
           | (None, s) \<Rightarrow> Finished (s\<lparr>lapTimes := lapTimes s @ [bestTime s]\<rparr>)))"

text \<open>
  \<open>optimizeRacingLine(iterations)\<close>, with the component's state \<open>leftPoints\<close>,
  \<open>rightPoints\<close>, \<open>centerline\<close> and the physics parameters as arguments.
\<close>

definition optimizeRacingLine ::
  "path \<Rightarrow> path \<Rightarrow> path \<Rightarrow> physics \<Rightarrow> (nat \<Rightarrow> real) \<Rightarrow> nat \<Rightarrow> outcome" where
  "optimizeRacingLine leftPoints rightPoints centerline opts rnd iterations =
     (if length centerline < 5 then Alerted
      else
        case (resamplePath leftPoints 3, resamplePath rightPoints 3) of
          (Some left, Some right) \<Rightarrow>
            let path = smoothPath (centerOf left right) 3;
                normals = normalsOf path
            in (case allowedOf left right path normals of
                  Inl e \<Rightarrow> CorridorThrew e
                | Inr allowed \<Rightarrow> hillClimb opts normals allowed rnd iterations path)
        | _ \<Rightarrow> NoReturn)"

section \<open>Predicates used in the statements\<close>

text \<open>A speed that is a number between 0 and \<open>vt\<close>.\<close>

definition okSpeed :: "real \<Rightarrow> jsnum \<Rightarrow> bool" where
  "okSpeed vt x = (\<exists>r. x = Num r \<and> 0 \<le> r \<and> r \<le> vt)"

section \<open>Example inputs\<close>

text \<open>
  The parameter values the application starts with: \<open>useState(0.2)\<close> for the scale,
  1.6 for the tyre grip, 7.5 for the brake deceleration, 8500 for the engine power and
  22 for the top speed.
\<close>

definition defaultPhysics :: physics where
  "defaultPhysics =
     \<lparr>pxToMeter = 0.2, tyreMu = 1.6, maxBrakeAccel = 7.5, enginePower = 8500, vTop = 22\<rparr>"

text \<open>
  A closed path whose last sample lies on a straight just before a right-angle corner at
  the first sample.
\<close>

definition cornerAfterStraight :: path where
  "cornerAfterStraight =
     [\<lparr>px = 0, py = 0\<rparr>, \<lparr>px = 0, py = 1\<rparr>, \<lparr>px = - 100, py = 1\<rparr>,
      \<lparr>px = - 100, py = 0\<rparr>, \<lparr>px = - 1, py = 0\<rparr>]"

text \<open>Two points, one pixel apart.\<close>

definition twoPoints :: path where
  "twoPoints = [\<lparr>px = 0, py = 0\<rparr>, \<lparr>px = 1, py = 0\<rparr>]"

text \<open>A right-angle corner of three points.\<close>

definition rightAngle :: path where
  "rightAngle = [\<lparr>px = 0, py = 0\<rparr>, \<lparr>px = 1, py = 0\<rparr>, \<lparr>px = 1, py = 1\<rparr>]"

text \<open>Two straight, parallel edges of five points each, 3 apart.\<close>

definition straightLeft :: path where
  "straightLeft =
     [\<lparr>px = 0, py = 0\<rparr>, \<lparr>px = 3, py = 0\<rparr>, \<lparr>px = 6, py = 0\<rparr>, \<lparr>px = 9, py = 0\<rparr>,
      \<lparr>px = 12, py = 0\<rparr>]"

definition straightRight :: path where
  "straightRight =
     [\<lparr>px = 0, py = 6\<rparr>, \<lparr>px = 3, py = 6\<rparr>, \<lparr>px = 6, py = 6\<rparr>, \<lparr>px = 9, py = 6\<rparr>,
      \<lparr>px = 12, py = 6\<rparr>]"

text \<open>
  Three points on a line, the first two at the largest power of two below the largest
  double and its negative: each coordinate is a finite double, their difference is not.
\<close>

definition farApart :: path where
  "farApart = [\<lparr>px = 2 ^ 1023, py = 0\<rparr>, \<lparr>px = - (2 ^ 1023), py = 0\<rparr>, \<lparr>px = 0, py = 0\<rparr>]"

text \<open>A closed path that stays twice at its second point.\<close>

definition stalled :: path where
  "stalled = [\<lparr>px = 0, py = 0\<rparr>, \<lparr>px = 1, py = 0\<rparr>, \<lparr>px = 1, py = 0\<rparr>, \<lparr>px = 1, py = 1\<rparr>]"

section \<open>Properties of the smoother\<close>

lemma length_cuts: "length (cuts ps) = 2 * (length ps - 1)"
  by (induction ps rule: cuts.induct) simp_all

lemma length_smoothRound: "length (smoothRound cur) = 2 * length cur" if "cur \<noteq> []"
  using that by (cases cur) (simp_all add: smoothRound_def length_cuts)

lemma length_smoothRounds:
  "length ((smoothRound ^^ k) cur) = length cur * 2 ^ k" if "cur \<noteq> []"
proof (induction k)
  case 0
  show ?case by simp
next
  case (Suc k)
  have "(smoothRound ^^ k) cur \<noteq> []"
    using Suc that by (metis length_0_conv mult_eq_0_iff power_not_zero zero_neq_numeral)
  then show ?case
    using Suc by (simp add: length_smoothRound)
qed

lemma length_smoothPath:
  "length (smoothPath pts k) = (if length pts < 3 then length pts else length pts * 2 ^ k)"
proof (cases "length pts < 3")
  case True
  then show ?thesis by (simp add: smoothPath_def)
next
  case False
  then have "pts \<noteq> []" by auto
  then show ?thesis
    using False by (simp add: smoothPath_def length_smoothRounds)
qed

text \<open>
  C5, as stated, fails: the claimed count \<open>n + (n-1)*(2^k - 1)\<close> is 5 for a path of 3
  points and one round, and the smoother returns 6 points (the first point, two points
  for each of the two segments, the last point).
\<close>

theorem C5_counterexample:
  "length (smoothPath [\<lparr>px = 0, py = 0\<rparr>, \<lparr>px = 4, py = 0\<rparr>, \<lparr>px = 4, py = 4\<rparr>] 1)
     \<noteq> 3 + (3 - 1) * (2 ^ 1 - 1)"
  by (simp add: smoothPath_def smoothRound_def)

text \<open>
  C5, amended: for every path of \<open>n \<ge> 3\<close> points and every number of rounds \<open>k\<close>,
  \<open>k\<close> rounds of the path smoother yield a path of exactly \<open>n * 2^k\<close> points:
  every round doubles the count.
\<close>

theorem C5_smooth_count:
  "3 \<le> length pts \<Longrightarrow> length (smoothPath pts k) = length pts * 2 ^ k"
  by (simp add: length_smoothPath)

text \<open>Three points and two rounds: 12 points.\<close>

theorem C5_smooth_count_witness:
  "length (smoothPath [\<lparr>px = 0, py = 0\<rparr>, \<lparr>px = 4, py = 0\<rparr>, \<lparr>px = 4, py = 4\<rparr>] 2) = 12"
  using C5_smooth_count [of "[\<lparr>px = 0, py = 0\<rparr>, \<lparr>px = 4, py = 0\<rparr>, \<lparr>px = 4, py = 4\<rparr>]" 2]
  by simp

section \<open>Evaluating square roots and list indices\<close>

lemma hypot_nonneg [simp]: "0 \<le> hypot a b"
  by (simp add: hypot_def)

lemma hypot_0_right [simp]: "hypot a 0 = \<bar>a\<bar>"
  by (simp add: hypot_def)

lemma hypot_0_left [simp]: "hypot 0 b = \<bar>b\<bar>"
  by (simp add: hypot_def)

lemma hypot_eq_0_iff [simp]: "hypot a b = 0 \<longleftrightarrow> a = 0 \<and> b = 0"
  by (simp add: hypot_def)

lemma sqrt_le_numeral: "sqrt x \<le> numeral n \<longleftrightarrow> x \<le> numeral n * numeral n"
  by (metis real_sqrt_le_iff real_sqrt_abs2 abs_numeral)

lemma sqrt_less_numeral: "sqrt x < numeral n \<longleftrightarrow> x < numeral n * numeral n"
  by (metis real_sqrt_less_iff real_sqrt_abs2 abs_numeral)

lemma numeral_le_sqrt: "numeral n \<le> sqrt x \<longleftrightarrow> numeral n * numeral n \<le> x"
  by (metis real_sqrt_le_iff real_sqrt_abs2 abs_numeral)

lemma numeral_less_sqrt: "numeral n < sqrt x \<longleftrightarrow> numeral n * numeral n < x"
  by (metis real_sqrt_less_iff real_sqrt_abs2 abs_numeral)

lemmas sqrt_numeral = sqrt_le_numeral sqrt_less_numeral numeral_le_sqrt numeral_less_sqrt

lemma upt_0_3: "[0..<3] = [0, 1, 2::nat]"
  by (simp add: upt_rec)

lemma upt_0_5: "[0..<5] = [0, 1, 2, 3, 4::nat]"
  by (simp add: upt_rec)

lemma replicate_5: "replicate 5 x = [x, x, x, x, x]"
  by (simp add: numeral_eq_Suc)

section \<open>Properties of the lap simulator\<close>

lemma length_forwardFold [simp]:
  "length (foldl (forwardStep opts lims d) v js) = length v"
  by (induction js arbitrary: v) (simp_all add: forwardStep_def Let_def)

lemma length_forwardPass [simp]: "length (forwardPass opts lims d n) = n"
  by (simp add: forwardPass_def)

lemma length_backwardStep [simp]: "length (backwardStep opts d v i) = length v"
  by (simp add: backwardStep_def Let_def)

lemma length_backwardFold [simp]:
  "length (foldl (backwardStep opts d) v js) = length v"
  by (induction js arbitrary: v) simp_all

lemma length_backwardRound [simp]: "length (backwardRound opts d n v) = length v"
  by (simp add: backwardRound_def)

lemma length_backwardPass [simp]: "length (backwardPass opts d n v) = length v"
  by (simp add: backwardPass_def numeral_3_eq_3)

lemma length_segDists [simp]: "length (segDists path s) = length path - 1 + 1"
  by (simp add: segDists_def Let_def)

lemma length_speedLimits [simp]: "length (speedLimits path opts) = length path"
  by (simp add: speedLimits_def computeCurvature_def)

lemma speedLimits_kappa:
  "speedLimits path opts =
     map (\<lambda>k. min (lateralLimit opts (curvPerMeter k (pxToMeter opts))) (vTop opts))
       (map kappa (computeCurvature path))"
  by (simp add: speedLimits_def comp_def)

lemma okSpeed_js_min:
  assumes "0 \<le> m" "m \<le> vt" "0 \<le> s"
  shows "okSpeed vt (js_min m (Num s))"
  using assms by (simp add: okSpeed_def min_def)

lemma okSpeed_forwardStep:
  assumes v: "\<forall>x\<in>set v. okSpeed (vTop opts) x"
    and e: "0 \<le> a_forward opts * d ! (i - 1)"
    and i: "i - 1 < length v"
    and l: "0 \<le> lims ! i" "0 \<le> vTop opts"
  shows "\<forall>x\<in>set (forwardStep opts lims d v i). okSpeed (vTop opts) x"
proof -
  have "okSpeed (vTop opts) (v ! (i - 1))"
    using v i by simp
  then obtain r where r: "v ! (i - 1) = Num r" "0 \<le> r"
    unfolding okSpeed_def by blast
  define e where "e = 2 * a_forward opts * d ! (i - 1)"
  have "0 \<le> e"
    using \<open>0 \<le> a_forward opts * d ! (i - 1)\<close> by (simp add: e_def mult.assoc)
  then have nn: "0 \<le> r * r + e"
    by simp
  then have sq: "sqrtSq (v ! (i - 1)) e = Num (sqrt (r * r + e))"
    unfolding r(1) by simp
  have new: "okSpeed (vTop opts) (js_min (min (lims ! i) (vTop opts)) (sqrtSq (v ! (i - 1)) e))"
    unfolding sq using l nn by (intro okSpeed_js_min) simp_all
  have "set (forwardStep opts lims d v i)
      \<subseteq> insert (js_min (min (lims ! i) (vTop opts)) (sqrtSq (v ! (i - 1)) e)) (set v)"
    unfolding forwardStep_def Let_def e_def by (rule set_update_subset_insert)
  then show ?thesis
    using v new by blast
qed

lemma okSpeed_forwardFold:
  assumes "\<forall>x\<in>set v. okSpeed (vTop opts) x"
    and "\<forall>i\<in>set js. 0 \<le> a_forward opts * d ! (i - 1) \<and> i - 1 < length v \<and> 0 \<le> lims ! i"
    and "0 \<le> vTop opts"
  shows "\<forall>x\<in>set (foldl (forwardStep opts lims d) v js). okSpeed (vTop opts) x"
  using assms
proof (induction js arbitrary: v)
  case Nil
  then show ?case by simp
next
  case (Cons j js)
  have "\<forall>x\<in>set (forwardStep opts lims d v j). okSpeed (vTop opts) x"
    using Cons.prems by (intro okSpeed_forwardStep) auto
  moreover have "length (forwardStep opts lims d v j) = length v"
    by (simp add: forwardStep_def Let_def)
  ultimately show ?case
    using Cons.prems by (simp add: Cons.IH)
qed

lemma okSpeed_backwardStep:
  assumes v: "\<forall>x\<in>set v. okSpeed vt x" and i: "i < length v"
  shows "\<forall>x\<in>set (backwardStep opts d v i). okSpeed vt x"
proof (cases "js_gt (v ! i) (sqrtSq (v ! (i + 1)) (2 * maxBrakeAccel opts * d ! i))")
  case False
  then show ?thesis using v by (simp add: backwardStep_def)
next
  case True
  have "okSpeed vt (v ! i)"
    using v i by simp
  then obtain a where a: "v ! i = Num a" "0 \<le> a" "a \<le> vt"
    unfolding okSpeed_def by blast
  from True a obtain b where b: "sqrtSq (v ! (i + 1)) (2 * maxBrakeAccel opts * d ! i) = Num b" "b < a"
    by (cases "sqrtSq (v ! (i + 1)) (2 * maxBrakeAccel opts * d ! i)") auto
  have new: "okSpeed vt (js_max 0 (Num b))"
    using a b by (simp add: okSpeed_def)
  have "set (backwardStep opts d v i) \<subseteq> insert (js_max 0 (Num b)) (set v)"
    unfolding backwardStep_def Let_def b(1) using True b(1)
    by (simp add: set_update_subset_insert)
  then show ?thesis
    using v new by blast
qed

lemma okSpeed_backwardFold:
  assumes "\<forall>x\<in>set v. okSpeed vt x" and "\<forall>i\<in>set js. i < length v"
  shows "\<forall>x\<in>set (foldl (backwardStep opts d) v js). okSpeed vt x"
  using assms
proof (induction js arbitrary: v)
  case Nil
  then show ?case by simp
next
  case (Cons j js)
  have "\<forall>x\<in>set (backwardStep opts d v j). okSpeed vt x"
    using Cons.prems by (intro okSpeed_backwardStep) auto
  then show ?case
    using Cons.prems by (simp add: Cons.IH)
qed

lemma okSpeed_backwardRound:
  assumes "\<forall>x\<in>set v. okSpeed vt x" and "length v = n"
  shows "\<forall>x\<in>set (backwardRound opts d n v). okSpeed vt x"
  unfolding backwardRound_def using assms by (intro okSpeed_backwardFold) auto

lemma okSpeed_backwardPass:
  assumes "\<forall>x\<in>set v. okSpeed vt x" and "length v = n"
  shows "\<forall>x\<in>set (backwardPass opts d n v). okSpeed vt x"
  unfolding backwardPass_def numeral_3_eq_3 funpow.simps o_def
  using assms by (intro okSpeed_backwardRound) simp_all

lemma lateralLimit_nonneg: "0 \<le> vTop opts \<Longrightarrow> 0 \<le> lateralLimit opts k"
  by (cases k) (simp_all add: lateralLimit_def le_max_iff_disj)

lemma speedLimits_range:
  assumes "0 \<le> vTop opts" "i < length path"
  shows "0 \<le> speedLimits path opts ! i \<and> speedLimits path opts ! i \<le> vTop opts"
  using assms by (simp add: speedLimits_def computeCurvature_def lateralLimit_nonneg)

lemma segDists_nth:
  assumes "i < length path"
  shows "\<exists>h\<ge>0. segDists path s ! i = h * s"
proof (cases "i < length path - 1")
  case True
  then have "segDists path s ! i = hypot (px (path ! (i + 1)) - px (path ! i))
      (py (path ! (i + 1)) - py (path ! i)) * s"
    by (simp add: segDists_def Let_def nth_append)
  then show ?thesis
    using hypot_nonneg by blast
next
  case False
  then have "i = length path - 1"
    using assms by simp
  then have "segDists path s ! i = hypot (px (path ! 0) - px (path ! (length path - 1)))
      (py (path ! 0) - py (path ! (length path - 1))) * s"
    by (simp add: segDists_def Let_def nth_append)
  then show ?thesis
    using hypot_nonneg by blast
qed

lemma a_forward_sign:
  assumes "0 \<le> enginePower opts * s"
  shows "0 \<le> a_forward opts * s"
proof (cases "0 \<le> enginePower opts")
  case True
  then have a: "0 \<le> a_forward opts"
    by (simp add: a_forward_def)
  show ?thesis
  proof (cases "enginePower opts = 0")
    case True
    then show ?thesis by (simp add: a_forward_def)
  next
    case False
    then have "0 \<le> s"
      using assms True by (simp add: zero_le_mult_iff)
    then show ?thesis
      using a by simp
  qed
next
  case False
  then have "s \<le> 0"
    using assms by (simp add: zero_le_mult_iff)
  moreover have "a_forward opts \<le> 0"
    using False by (simp add: a_forward_def min_def divide_le_0_iff)
  ultimately show ?thesis
    by (simp add: zero_le_mult_iff)
qed

lemma forward_energy_nonneg:
  assumes "0 \<le> enginePower opts * pxToMeter opts" "i < length path"
  shows "0 \<le> a_forward opts * segDists path (pxToMeter opts) ! i"
proof -
  obtain h where h: "0 \<le> h" "segDists path (pxToMeter opts) ! i = h * pxToMeter opts"
    using segDists_nth [OF assms(2)] by blast
  have "0 \<le> h * (a_forward opts * pxToMeter opts)"
    using h(1) a_forward_sign [OF assms(1)] by simp
  then show ?thesis
    by (simp add: h(2) mult.left_commute)
qed

lemma okSpeed_forwardPass:
  assumes "0 \<le> vTop opts" "0 \<le> enginePower opts * pxToMeter opts" "0 < length path"
  shows "\<forall>x\<in>set (forwardPass opts (speedLimits path opts) (segDists path (pxToMeter opts)) (length path)).
           okSpeed (vTop opts) x"
  unfolding forwardPass_def
proof (intro okSpeed_forwardFold ballI conjI)
  show "0 \<le> vTop opts" by fact
next
  fix x assume "x \<in> set ((replicate (length path) (Num 0))[0 := Num (min (speedLimits path opts ! 0) (vTop opts))])"
  then have "x = Num 0 \<or> x = Num (min (speedLimits path opts ! 0) (vTop opts))"
    by (auto dest!: subsetD [OF set_update_subset_insert])
  then show "okSpeed (vTop opts) x"
    using speedLimits_range [of opts 0 path] assms by (auto simp: okSpeed_def)
next
  fix i assume i: "i \<in> set [1..<length path]"
  then show "0 \<le> a_forward opts * segDists path (pxToMeter opts) ! (i - 1)"
    using assms by (intro forward_energy_nonneg) auto
  show "i - 1 < length ((replicate (length path) (Num 0))[0 := Num (min (speedLimits path opts ! 0) (vTop opts))])"
    using i by auto
  show "0 \<le> speedLimits path opts ! i"
    using i assms speedLimits_range [of opts i path] by simp
qed

lemmas sim_eval = simulateLap_def Let_def segDists_def speedLimits_def computeCurvature_def
  curvatureAt_def curvPerMeter_def lateralLimit_def forwardPass_def forwardStep_def
  backwardPass_def backwardRound_def backwardStep_def lapTime_def a_forward_def orElse1_def
  upt_rec numeral_3_eq_3 g_def

text \<open>
  C2, as stated, fails: with a negative engine power (the input field accepts one) the
  forward pass takes the square root of a negative number, and the speed of the second
  sample is \<open>NaN\<close>, which is neither at least 0 nor at most the top speed.
\<close>

theorem C2_counterexample:
  "2 \<le> length twoPoints \<and> 0 < vTop (defaultPhysics\<lparr>enginePower := - 8500\<rparr>) \<and>
   simulateLap twoPoints (defaultPhysics\<lparr>enginePower := - 8500\<rparr>)
     = Some \<lparr>time = NaN, speedProfile = [Num 22, NaN], dists = [1 / 5, 1 / 5], speedLimit = [22, 22]\<rparr>"
  by (simp add: sim_eval twoPoints_def defaultPhysics_def)

text \<open>
  C2, amended: for every path of at least 2 points and every parameter bundle with a
  positive top speed whose engine power and distance scale do not have opposite signs
  (in particular when both are non-negative), \<open>simulateLap\<close> succeeds and every entry of
  its speed profile is a number at least 0 and at most the top speed.
\<close>

theorem C2_speed_range:
  assumes "2 \<le> length path" "0 < vTop opts" "0 \<le> enginePower opts * pxToMeter opts"
  shows "\<exists>r. simulateLap path opts = Some r \<and>
           (\<forall>i<length path. \<exists>s. speedProfile r ! i = Num s \<and> 0 \<le> s \<and> s \<le> vTop opts)"
proof -
  let ?v = "backwardPass opts (segDists path (pxToMeter opts)) (length path)
              (forwardPass opts (speedLimits path opts) (segDists path (pxToMeter opts)) (length path))"
  have "\<forall>x\<in>set ?v. okSpeed (vTop opts) x"
  proof (intro okSpeed_backwardPass okSpeed_forwardPass)
    show "0 < length path" using assms(1) by auto
  qed (use assms in simp_all)
  then have "\<forall>i<length path. okSpeed (vTop opts) (?v ! i)"
    by simp
  then show ?thesis
    using assms(1) by (simp add: simulateLap_def Let_def okSpeed_def)
qed

text \<open>Two points with the default parameters: both speeds are the top speed, 22.\<close>

theorem C2_speed_range_witness:
  "simulateLap twoPoints defaultPhysics
     = Some \<lparr>time = Num (1 / 55), speedProfile = [Num 22, Num 22], dists = [1 / 5, 1 / 5], speedLimit = [22, 22]\<rparr> \<and>
   (\<exists>r. simulateLap twoPoints defaultPhysics = Some r \<and>
     (\<forall>i<length twoPoints. \<exists>s. speedProfile r ! i = Num s \<and> 0 \<le> s \<and> s \<le> vTop defaultPhysics))"
proof
  show "simulateLap twoPoints defaultPhysics
     = Some \<lparr>time = Num (1 / 55), speedProfile = [Num 22, Num 22], dists = [1 / 5, 1 / 5], speedLimit = [22, 22]\<rparr>"
    by (simp add: sim_eval twoPoints_def defaultPhysics_def sqrt_numeral)
  show "\<exists>r. simulateLap twoPoints defaultPhysics = Some r \<and>
     (\<forall>i<length twoPoints. \<exists>s. speedProfile r ! i = Num s \<and> 0 \<le> s \<and> s \<le> vTop defaultPhysics)"
    by (rule C2_speed_range) (simp_all add: twoPoints_def defaultPhysics_def)
qed


lemma computeCurvature_nth: "i < length path \<Longrightarrow> computeCurvature path ! i = curvatureAt path i"
  by (simp add: computeCurvature_def)

lemma speedLimits_nth:
  assumes "i < length path"
  shows "speedLimits path opts ! i =
     min (lateralLimit opts (curvPerMeter (kappa (curvatureAt path i)) (pxToMeter opts))) (vTop opts)"
  using assms by (simp add: speedLimits_kappa computeCurvature_def)

lemma simulateLap_speedLimit:
  "simulateLap path opts = Some r \<Longrightarrow> speedLimit r = speedLimits path opts"
  by (auto simp: simulateLap_def Let_def split: if_splits)

lemma length_rightAngle: "length rightAngle = 3"
  by (simp add: rightAngle_def)

lemma kappa_rightAngle_1: "kappa (curvatureAt rightAngle (Suc 0)) = 1 / 2"
  by (simp add: curvatureAt_def Let_def orElse1_def rightAngle_def)

text \<open>
  C3, as stated, fails: the source takes the square-root formula only when the curvature
  magnitude exceeds \<open>1e-8\<close>, not whenever it is non-zero. With a scale of \<open>10^9\<close> and a
  top speed of \<open>10^6\<close>, the corner sample of \<open>rightAngle\<close> has the non-zero curvature
  magnitude \<open>5e-10\<close>; the limit is the top speed \<open>10^6\<close>, and the claimed formula,
  clamped, is below it.
\<close>

theorem C3_counterexample:
  "\<exists>r. simulateLap rightAngle (defaultPhysics\<lparr>pxToMeter := 1000000000, vTop := 1000000\<rparr>) = Some r \<and>
     \<bar>kappa (computeCurvature rightAngle ! 1)\<bar> / 1000000000 \<noteq> 0 \<and>
     speedLimit r ! 1 = 1000000 \<and>
     min (sqrt (max 0.5 (1.6 * g / (\<bar>kappa (computeCurvature rightAngle ! 1)\<bar> / 1000000000)))) 1000000
       < 1000000"
proof -
  let ?opts = "defaultPhysics\<lparr>pxToMeter := 1000000000, vTop := 1000000\<rparr>"
  obtain r where r: "simulateLap rightAngle ?opts = Some r"
    by (simp add: simulateLap_def Let_def length_rightAngle)
  have k: "kappa (computeCurvature rightAngle ! 1) = 1 / 2"
    by (simp add: computeCurvature_nth length_rightAngle kappa_rightAngle_1)
  have sl: "speedLimit r ! 1 = 1000000"
    using r
    by (simp add: simulateLap_speedLimit speedLimits_nth length_rightAngle kappa_rightAngle_1
        lateralLimit_def curvPerMeter_def defaultPhysics_def)
  have "sqrt (max 0.5 (1.6 * g / (\<bar>1 / 2\<bar> / 1000000000))) < 1000000"
    by (simp add: g_def sqrt_numeral)
  then have lt: "min (sqrt (max 0.5 (1.6 * g /
      (\<bar>kappa (computeCurvature rightAngle ! 1)\<bar> / 1000000000)))) 1000000 < 1000000"
    unfolding k by (simp add: min_def)
  have nz: "\<bar>kappa (computeCurvature rightAngle ! 1)\<bar> / 1000000000 \<noteq> 0"
    unfolding k by simp
  show ?thesis
    using r sl nz lt by blast
qed

text \<open>
  C3, amended: in \<open>simulateLap\<close>, for a non-zero distance scale, the speed limit of a
  sample is \<open>sqrt(max(0.5, mu*g/k))\<close>, \<open>k\<close> being the curvature magnitude per distance
  unit, whenever \<open>k\<close> exceeds \<open>1e-8\<close>, and the top speed otherwise (also for a non-zero
  \<open>k\<close> of at most \<open>1e-8\<close>); after this it is clamped to the top speed. (For a zero
  scale the division gives \<open>Infinity\<close> or \<open>NaN\<close>: the limit is \<open>sqrt(0.5)\<close> for a
  non-zero curvature and the top speed for a zero one, clamped.)
\<close>

theorem C3_speed_limit:
  assumes "simulateLap path opts = Some r" "i < length path"
  shows "(pxToMeter opts \<noteq> 0 \<longrightarrow>
      speedLimit r ! i =
        min (if \<bar>kappa (computeCurvature path ! i)\<bar> / pxToMeter opts > 0.00000001
             then sqrt (max 0.5 (tyreMu opts * g /
                    (\<bar>kappa (computeCurvature path ! i)\<bar> / pxToMeter opts)))
             else vTop opts)
          (vTop opts)) \<and>
    (pxToMeter opts = 0 \<longrightarrow>
      speedLimit r ! i =
        min (if kappa (computeCurvature path ! i) = 0 then vTop opts else sqrt (max 0.5 0))
          (vTop opts))"
  using assms
  by (simp add: simulateLap_speedLimit speedLimits_nth computeCurvature_nth lateralLimit_def
      curvPerMeter_def)

text \<open>The corner sample of \<open>rightAngle\<close> with the default parameters: curvature 0.5 per pixel, 2.5 per metre, limit \<open>sqrt(1.6*9.81/2.5)\<close>.\<close>

theorem C3_speed_limit_witness:
  "\<exists>r. simulateLap rightAngle defaultPhysics = Some r \<and> speedLimit r ! 1 = sqrt (3924 / 625)"
proof -
  obtain r where r: "simulateLap rightAngle defaultPhysics = Some r"
    by (simp add: simulateLap_def Let_def length_rightAngle)
  have "pxToMeter defaultPhysics \<noteq> 0"
    by (simp add: defaultPhysics_def)
  with C3_speed_limit [OF r, of 1]
  have "speedLimit r ! 1 = sqrt (3924 / 625)"
    by (simp add: length_rightAngle computeCurvature_nth kappa_rightAngle_1 defaultPhysics_def
        g_def sqrt_numeral min_def)
  then show ?thesis
    using r by simp
qed

lemma backwardStep_other: "j \<noteq> i \<Longrightarrow> backwardStep opts d v i ! j = v ! j"
  by (simp add: backwardStep_def Let_def)

lemma backwardFold_other:
  "j \<notin> set js \<Longrightarrow> foldl (backwardStep opts d) v js ! j = v ! j"
  by (induction js arbitrary: v) (auto simp: backwardStep_other)

lemma backwardRound_last: "backwardRound opts d n v ! (n - 1) = v ! (n - 1)"
  unfolding backwardRound_def by (rule backwardFold_other) simp

lemma backwardPass_last: "backwardPass opts d n v ! (n - 1) = v ! (n - 1)"
  unfolding backwardPass_def numeral_3_eq_3 funpow.simps o_def id_def
  by (simp only: backwardRound_last)

lemma lapTime_Suc:
  "lapTime d v (Suc n) = js_add (lapTime d v n) (js_divBy (d ! n) (js_max 0.1 (v ! n)))"
  by (simp add: lapTime_def)

lemma length_cornerAfterStraight: "length cornerAfterStraight = 5"
  by (simp add: cornerAfterStraight_def)

lemma kappa_cornerAfterStraight:
  "map kappa (computeCurvature cornerAfterStraight) = [1 / 2, 1 / 101, 1 / 101, 1 / 100, 0]"
proof -
  have "map kappa (computeCurvature cornerAfterStraight)
      = map (\<lambda>i. kappa (curvatureAt cornerAfterStraight i)) [0, 1, 2, 3, 4]"
    by (simp add: computeCurvature_def length_cornerAfterStraight upt_0_5)
  also have "\<dots> = [1 / 2, 1 / 101, 1 / 101, 1 / 100, 0]"
    by (simp add: curvatureAt_def Let_def orElse1_def cornerAfterStraight_def)
  finally show ?thesis .
qed

lemma speedLimits_cornerAfterStraight:
  "speedLimits cornerAfterStraight defaultPhysics
     = [sqrt (3924 / 625), sqrt (198162 / 625), sqrt (198162 / 625), sqrt (7848 / 25), 22]"
  unfolding speedLimits_kappa kappa_cornerAfterStraight
  by (simp add: curvPerMeter_def lateralLimit_def defaultPhysics_def g_def sqrt_numeral)

lemma segDists_cornerAfterStraight:
  "segDists cornerAfterStraight (pxToMeter defaultPhysics) = [1 / 5, 20, 1 / 5, 99 / 5, 1 / 5]"
  by (simp add: segDists_def Let_def cornerAfterStraight_def defaultPhysics_def upt_rec)

lemma forwardPass_cornerAfterStraight:
  "forwardPass defaultPhysics
     [sqrt (3924 / 625), sqrt (198162 / 625), sqrt (198162 / 625), sqrt (7848 / 25), 22]
     [1 / 5, 20, 1 / 5, 99 / 5, 1 / 5] 5
   = [Num (sqrt (3924 / 625)), Num (sqrt (4799 / 625)), Num (sqrt (92299 / 625)),
      Num (sqrt (93174 / 625)), Num (sqrt (179799 / 625))]"
  by (simp add: forwardPass_def forwardStep_def a_forward_def defaultPhysics_def upt_rec
      replicate_5 sqrt_numeral)

lemma backwardPass_cornerAfterStraight:
  "backwardPass defaultPhysics [1 / 5, 20, 1 / 5, 99 / 5, 1 / 5] 5
     [Num (sqrt (3924 / 625)), Num (sqrt (4799 / 625)), Num (sqrt (92299 / 625)),
      Num (sqrt (93174 / 625)), Num (sqrt (179799 / 625))]
   = [Num (sqrt (3924 / 625)), Num (sqrt (4799 / 625)), Num (sqrt (92299 / 625)),
      Num (sqrt (93174 / 625)), Num (sqrt (179799 / 625))]"
  by (simp add: backwardPass_def backwardRound_def backwardStep_def defaultPhysics_def upt_rec
      numeral_3_eq_3)

lemma speedProfile_cornerAfterStraight:
  "\<exists>r. simulateLap cornerAfterStraight defaultPhysics = Some r \<and>
     speedProfile r = [Num (sqrt (3924 / 625)), Num (sqrt (4799 / 625)), Num (sqrt (92299 / 625)),
      Num (sqrt (93174 / 625)), Num (sqrt (179799 / 625))] \<and>
     dists r = [1 / 5, 20, 1 / 5, 99 / 5, 1 / 5]"
  by (simp add: simulateLap_def Let_def length_cornerAfterStraight segDists_cornerAfterStraight
      speedLimits_cornerAfterStraight forwardPass_cornerAfterStraight backwardPass_cornerAfterStraight)

text \<open>
  C10: every backward round leaves the speed of the last sample as it is, so the speed
  \<open>simulateLap\<close> returns for the last sample is the one the forward pass gave it; the
  lap time adds the time of the closing segment, at that speed, to the times of the
  other segments; and the braking constraint across the closing segment can fail: on
  \<open>cornerAfterStraight\<close> with the default parameters the last speed exceeds
  \<open>sqrt(v[0]^2 + 2*brakeDecel*dist[n-1])\<close>.
\<close>

theorem C10_closing_segment_unbraked:
  "(\<forall>path opts r. simulateLap path opts = Some r \<longrightarrow>
      (\<forall>v. backwardRound opts (dists r) (length path) v ! (length path - 1) = v ! (length path - 1)) \<and>
      speedProfile r ! (length path - 1)
        = forwardPass opts (speedLimit r) (dists r) (length path) ! (length path - 1) \<and>
      time r = js_add (lapTime (dists r) (speedProfile r) (length path - 1))
                 (js_divBy (dists r ! (length path - 1))
                    (js_max 0.1 (speedProfile r ! (length path - 1))))) \<and>
   (\<exists>r. simulateLap cornerAfterStraight defaultPhysics = Some r \<and>
        js_gt (speedProfile r ! 4)
          (sqrtSq (speedProfile r ! 0) (2 * maxBrakeAccel defaultPhysics * dists r ! 4)))"
proof (intro conjI allI impI)
  fix path opts r v
  assume r: "simulateLap path opts = Some r"
  show "backwardRound opts (dists r) (length path) v ! (length path - 1) = v ! (length path - 1)"
    by (rule backwardRound_last)
  have n: "2 \<le> length path"
    using r by (auto simp: simulateLap_def split: if_splits)
  have eq: "speedProfile r = backwardPass opts (dists r) (length path)
      (forwardPass opts (speedLimit r) (dists r) (length path))"
    "time r = lapTime (dists r) (speedProfile r) (length path)"
    using r by (auto simp: simulateLap_def Let_def split: if_splits)
  show "speedProfile r ! (length path - 1)
        = forwardPass opts (speedLimit r) (dists r) (length path) ! (length path - 1)"
    by (subst eq(1)) (rule backwardPass_last)
  have "length path = Suc (length path - 1)"
    using n by simp
  then show "time r = js_add (lapTime (dists r) (speedProfile r) (length path - 1))
                 (js_divBy (dists r ! (length path - 1))
                    (js_max 0.1 (speedProfile r ! (length path - 1))))"
    unfolding eq(2) using lapTime_Suc [of "dists r" "speedProfile r" "length path - 1"] by simp
next
  obtain r where r: "simulateLap cornerAfterStraight defaultPhysics = Some r"
    "speedProfile r = [Num (sqrt (3924 / 625)), Num (sqrt (4799 / 625)), Num (sqrt (92299 / 625)),
      Num (sqrt (93174 / 625)), Num (sqrt (179799 / 625))]"
    "dists r = [1 / 5, 20, 1 / 5, 99 / 5, 1 / 5]"
    using speedProfile_cornerAfterStraight by blast
  have "js_gt (speedProfile r ! 4)
          (sqrtSq (speedProfile r ! 0) (2 * maxBrakeAccel defaultPhysics * dists r ! 4))"
    by (simp add: r defaultPhysics_def)
  then show "\<exists>r. simulateLap cornerAfterStraight defaultPhysics = Some r \<and>
        js_gt (speedProfile r ! 4)
          (sqrtSq (speedProfile r ! 0) (2 * maxBrakeAccel defaultPhysics * dists r ! 4))"
    using r(1) by blast
qed

text \<open>On \<open>cornerAfterStraight\<close> the last speed, \<open>sqrt(287.6784)\<close>, is the one of the forward pass.\<close>

theorem C10_closing_segment_unbraked_witness:
  "\<exists>r. simulateLap cornerAfterStraight defaultPhysics = Some r \<and>
     speedProfile r ! 4 = Num (sqrt (179799 / 625)) \<and>
     forwardPass defaultPhysics (speedLimit r) (dists r) 5 ! 4 = Num (sqrt (179799 / 625))"
proof -
  obtain r where r: "simulateLap cornerAfterStraight defaultPhysics = Some r"
    "speedProfile r = [Num (sqrt (3924 / 625)), Num (sqrt (4799 / 625)), Num (sqrt (92299 / 625)),
      Num (sqrt (93174 / 625)), Num (sqrt (179799 / 625))]"
    using speedProfile_cornerAfterStraight by blast
  have "speedProfile r ! (length cornerAfterStraight - 1)
        = forwardPass defaultPhysics (speedLimit r) (dists r) (length cornerAfterStraight)
            ! (length cornerAfterStraight - 1)"
    using C10_closing_segment_unbraked r(1) by blast
  then show ?thesis
    using r by (simp add: length_cornerAfterStraight)
qed

lemma segDists_nth_mod:
  assumes "i < length path"
  shows "segDists path s ! i =
     hypot (px (path ! ((i + 1) mod length path)) - px (path ! i))
           (py (path ! ((i + 1) mod length path)) - py (path ! i)) * s"
proof (cases "i < length path - 1")
  case True
  then have "(i + 1) mod length path = i + 1"
    by simp
  then show ?thesis
    using True by (simp add: segDists_def Let_def nth_append)
next
  case False
  then have i: "i = length path - 1"
    using assms by simp
  have "i + 1 = length path"
    using i assms by simp
  then have "(i + 1) mod length path = 0"
    by simp
  then show ?thesis
    using i by (simp add: segDists_def Let_def nth_append)
qed

text \<open>
  C7: \<open>simulateLap\<close> returns the failure value exactly when the path has fewer than 2
  points. For every path of \<open>n \<ge> 2\<close> points it returns the result that carries the
  per-segment distances (every segment's length times the scale, the closing segment
  from the last point to the first included), the per-sample speed limits (the lateral
  limit of each sample's curvature, clamped to the top speed), the speed profile (the
  three backward rounds applied to the forward pass over these limits and distances) and
  the total lap time (the sum of the per-sample times over these distances and speeds);
  each array has \<open>n\<close> entries.
\<close>

theorem C7_simulateLap_result:
  "(simulateLap path opts = None) = (length path < 2) \<and>
   (2 \<le> length path \<longrightarrow>
      (let n = length path;
           d = segDists path (pxToMeter opts);
           lims = speedLimits path opts;
           v = backwardPass opts d n (forwardPass opts lims d n)
       in simulateLap path opts
            = Some \<lparr>time = lapTime d v n, speedProfile = v, dists = d, speedLimit = lims\<rparr> \<and>
          length v = n \<and> length d = n \<and> length lims = n \<and>
          (\<forall>i<n. d ! i = hypot (px (path ! ((i + 1) mod n)) - px (path ! i))
                              (py (path ! ((i + 1) mod n)) - py (path ! i)) * pxToMeter opts) \<and>
          (\<forall>i<n. lims ! i =
              min (lateralLimit opts (curvPerMeter (kappa (computeCurvature path ! i)) (pxToMeter opts)))
                  (vTop opts))))"
proof (intro conjI impI)
  show "(simulateLap path opts = None) = (length path < 2)"
    by (simp add: simulateLap_def Let_def)
next
  assume n: "2 \<le> length path"
  have "\<forall>i<length path. segDists path (pxToMeter opts) ! i =
      hypot (px (path ! ((i + 1) mod length path)) - px (path ! i))
            (py (path ! ((i + 1) mod length path)) - py (path ! i)) * pxToMeter opts"
    using segDists_nth_mod by blast
  moreover have "\<forall>i<length path. speedLimits path opts ! i =
      min (lateralLimit opts (curvPerMeter (kappa (computeCurvature path ! i)) (pxToMeter opts)))
          (vTop opts)"
    by (simp add: speedLimits_nth computeCurvature_nth)
  moreover have "simulateLap path opts
      = Some \<lparr>time = lapTime (segDists path (pxToMeter opts))
                  (backwardPass opts (segDists path (pxToMeter opts)) (length path)
                     (forwardPass opts (speedLimits path opts) (segDists path (pxToMeter opts)) (length path)))
                  (length path),
          speedProfile = backwardPass opts (segDists path (pxToMeter opts)) (length path)
                     (forwardPass opts (speedLimits path opts) (segDists path (pxToMeter opts)) (length path)),
          dists = segDists path (pxToMeter opts), speedLimit = speedLimits path opts\<rparr>"
    using n by (simp add: simulateLap_def Let_def)
  moreover have "length (segDists path (pxToMeter opts)) = length path"
    using n by simp
  ultimately show "let n = length path;
           d = segDists path (pxToMeter opts);
           lims = speedLimits path opts;
           v = backwardPass opts d n (forwardPass opts lims d n)
       in simulateLap path opts
            = Some \<lparr>time = lapTime d v n, speedProfile = v, dists = d, speedLimit = lims\<rparr> \<and>
          length v = n \<and> length d = n \<and> length lims = n \<and>
          (\<forall>i<n. d ! i = hypot (px (path ! ((i + 1) mod n)) - px (path ! i))
                              (py (path ! ((i + 1) mod n)) - py (path ! i)) * pxToMeter opts) \<and>
          (\<forall>i<n. lims ! i =
              min (lateralLimit opts (curvPerMeter (kappa (computeCurvature path ! i)) (pxToMeter opts)))
                  (vTop opts))"
    unfolding Let_def by simp
qed

lemma max_tenth_sqrt: "1 / 100 \<le> x \<Longrightarrow> max (1 / 10) (sqrt x) = sqrt x"
proof -
  assume "1 / 100 \<le> x"
  then have "sqrt (1 / 100) \<le> sqrt x"
    by (simp only: real_sqrt_le_iff)
  moreover have "sqrt (1 / 100) = 1 / 10"
    by (rule real_sqrt_unique) (simp_all add: power2_eq_square)
  ultimately show ?thesis
    by simp
qed

text \<open>
  One point gives the failure value; \<open>cornerAfterStraight\<close> with the default parameters
  gives the five distances, limits and speeds of the hand computation, and their lap time.
\<close>

theorem C7_simulateLap_result_witness:
  "simulateLap [\<lparr>px = 0, py = 0\<rparr>] defaultPhysics = None \<and>
   simulateLap cornerAfterStraight defaultPhysics
     = Some \<lparr>time = Num (1 / (5 * sqrt (3924 / 625)) + 20 / sqrt (4799 / 625) + 1 / (5 * sqrt (92299 / 625))
                        + 99 / (5 * sqrt (93174 / 625)) + 1 / (5 * sqrt (179799 / 625))),
             speedProfile = [Num (sqrt (3924 / 625)), Num (sqrt (4799 / 625)), Num (sqrt (92299 / 625)),
                             Num (sqrt (93174 / 625)), Num (sqrt (179799 / 625))],
             dists = [1 / 5, 20, 1 / 5, 99 / 5, 1 / 5],
             speedLimit = [sqrt (3924 / 625), sqrt (198162 / 625), sqrt (198162 / 625),
                           sqrt (7848 / 25), 22]\<rparr>"
proof
  show "simulateLap [\<lparr>px = 0, py = 0\<rparr>] defaultPhysics = None"
    using C7_simulateLap_result [of "[\<lparr>px = 0, py = 0\<rparr>]" defaultPhysics] by simp
  have "2 \<le> length cornerAfterStraight"
    by (simp add: length_cornerAfterStraight)
  then have "simulateLap cornerAfterStraight defaultPhysics
      = Some \<lparr>time = lapTime (segDists cornerAfterStraight (pxToMeter defaultPhysics))
                  (backwardPass defaultPhysics (segDists cornerAfterStraight (pxToMeter defaultPhysics)) (length cornerAfterStraight)
                     (forwardPass defaultPhysics (speedLimits cornerAfterStraight defaultPhysics) (segDists cornerAfterStraight (pxToMeter defaultPhysics)) (length cornerAfterStraight)))
                  (length cornerAfterStraight),
          speedProfile = backwardPass defaultPhysics (segDists cornerAfterStraight (pxToMeter defaultPhysics)) (length cornerAfterStraight)
                     (forwardPass defaultPhysics (speedLimits cornerAfterStraight defaultPhysics) (segDists cornerAfterStraight (pxToMeter defaultPhysics)) (length cornerAfterStraight)),
          dists = segDists cornerAfterStraight (pxToMeter defaultPhysics),
          speedLimit = speedLimits cornerAfterStraight defaultPhysics\<rparr>"
    using C7_simulateLap_result [of cornerAfterStraight defaultPhysics] unfolding Let_def by blast
  then show "simulateLap cornerAfterStraight defaultPhysics
     = Some \<lparr>time = Num (1 / (5 * sqrt (3924 / 625)) + 20 / sqrt (4799 / 625) + 1 / (5 * sqrt (92299 / 625))
                        + 99 / (5 * sqrt (93174 / 625)) + 1 / (5 * sqrt (179799 / 625))),
             speedProfile = [Num (sqrt (3924 / 625)), Num (sqrt (4799 / 625)), Num (sqrt (92299 / 625)),
                             Num (sqrt (93174 / 625)), Num (sqrt (179799 / 625))],
             dists = [1 / 5, 20, 1 / 5, 99 / 5, 1 / 5],
             speedLimit = [sqrt (3924 / 625), sqrt (198162 / 625), sqrt (198162 / 625),
                           sqrt (7848 / 25), 22]\<rparr>"
    by (simp add: length_cornerAfterStraight segDists_cornerAfterStraight
        speedLimits_cornerAfterStraight forwardPass_cornerAfterStraight
        backwardPass_cornerAfterStraight lapTime_def upt_0_5 max_tenth_sqrt)
qed


section \<open>Properties of the resampler\<close>

declare seek.simps [simp del]

lemma seek_step: "j < length d - 1 \<Longrightarrow> d ! (j + 1) < t \<Longrightarrow> seek d t j = seek d t (j + 1)"
  by (subst seek.simps) simp

lemma seek_stop: "\<not> (j < length d - 1 \<and> d ! (j + 1) < t) \<Longrightarrow> seek d t j = j"
  by (subst seek.simps) auto

lemma seek_ge: "j0 \<le> seek d t j0"
proof (induction d t j0 rule: seek.induct)
  case (1 d t j)
  show ?case
  proof (cases "j < length d - 1 \<and> d ! (j + 1) < t")
    case True
    then have "j + 1 \<le> seek d t (j + 1)" using "1.IH" by blast
    then show ?thesis using seek_step True by simp
  next
    case False
    then show ?thesis by (simp add: seek_stop)
  qed
qed

lemma seek_le: "seek d t j0 \<le> max j0 (length d - 1)"
proof (induction d t j0 rule: seek.induct)
  case (1 d t j)
  show ?case
  proof (cases "j < length d - 1 \<and> d ! (j + 1) < t")
    case True
    then have "seek d t (j + 1) \<le> max (j + 1) (length d - 1)" using "1.IH" by blast
    then show ?thesis using seek_step True by simp
  next
    case False
    then show ?thesis by (simp add: seek_stop)
  qed
qed

lemma seek_passed: "j0 \<le> k \<Longrightarrow> k < seek d t j0 \<Longrightarrow> d ! (k + 1) < t"
proof (induction d t j0 rule: seek.induct)
  case (1 d t j)
  show ?case
  proof (cases "j < length d - 1 \<and> d ! (j + 1) < t")
    case True
    then have eq: "seek d t j = seek d t (j + 1)" by (simp add: seek_step)
    show ?thesis
    proof (cases "k = j")
      case True
      then show ?thesis using \<open>j < length d - 1 \<and> d ! (j + 1) < t\<close> by simp
    next
      case False
      then have "j + 1 \<le> k" using "1.prems" by simp
      moreover have "k < seek d t (j + 1)" using "1.prems" eq by simp
      ultimately show ?thesis using "1.IH" True by blast
    qed
  next
    case False
    then have "seek d t j = j" by (simp add: seek_stop)
    then show ?thesis using "1.prems" by simp
  qed
qed

lemma seek_next: "seek d t j0 < length d - 1 \<Longrightarrow> t \<le> d ! (seek d t j0 + 1)"
proof (induction d t j0 rule: seek.induct)
  case (1 d t j)
  show ?case
  proof (cases "j < length d - 1 \<and> d ! (j + 1) < t")
    case True
    then have eq: "seek d t j = seek d t (j + 1)" by (simp add: seek_step)
    show ?thesis
      unfolding eq using "1.IH" True "1.prems" eq by simp
  next
    case False
    then have eq: "seek d t j = j" by (simp add: seek_stop)
    show ?thesis
      unfolding eq using False "1.prems" eq by simp
  qed
qed

lemma cumDist_length: "length (cumDist acc pts) = length pts - 1"
  by (induction acc pts rule: cumDist.induct) simp_all

lemma distance_nonneg [simp]: "0 \<le> distance a b"
  by (simp add: distance_def)

lemma cumDist_ge: "x \<in> set (cumDist acc pts) \<Longrightarrow> acc \<le> x"
proof (induction acc pts rule: cumDist.induct)
  case (1 acc a b rest)
  have d: "0 \<le> distance b a" by simp
  from "1.prems" have "x = acc + distance b a \<or> x \<in> set (cumDist (acc + distance b a) (b # rest))"
    by simp
  then show ?case
  proof
    assume "x = acc + distance b a"
    then show ?thesis using d by simp
  next
    assume "x \<in> set (cumDist (acc + distance b a) (b # rest))"
    then have "acc + distance b a \<le> x" by (rule "1.IH")
    then show ?thesis using d by arith
  qed
qed simp_all

lemma cum_nth_step:
  "i + 1 < length pts \<Longrightarrow>
     (acc # cumDist acc pts) ! (i + 1) = (acc # cumDist acc pts) ! i + distance (pts ! (i + 1)) (pts ! i)"
proof (induction acc pts arbitrary: i rule: cumDist.induct)
  case (1 acc a b rest)
  show ?case
  proof (cases i)
    case 0
    then show ?thesis by simp
  next
    case (Suc k)
    then have "k + 1 < length (b # rest)" using "1.prems" by simp
    from "1.IH" [OF this] show ?thesis
      using Suc by simp
  qed
qed simp_all

lemma cum_total_nonneg:
  "0 \<le> (0 # cumDist 0 pts) ! (length (0 # cumDist 0 pts) - 1)"
proof (cases "cumDist 0 pts")
  case Nil
  then show ?thesis by simp
next
  case (Cons c cs)
  then have "(0 # cumDist 0 pts) ! (length (0 # cumDist 0 pts) - 1) = last (cumDist 0 pts)"
    by (simp add: last_conv_nth)
  moreover have "last (cumDist 0 pts) \<in> set (cumDist 0 pts)"
    using Cons by simp
  ultimately show ?thesis
    using cumDist_ge by metis
qed

lemma length_cum [simp]: "length (0 # cumDist 0 pts) = length pts - 1 + 1"
  by (simp add: cumDist_length)

lemma seek_in_range:
  assumes len: "2 \<le> length d" and t: "t \<le> d ! (length d - 1)"
  shows "seek d t 0 + 1 < length d"
proof (rule ccontr)
  assume "\<not> seek d t 0 + 1 < length d"
  moreover have "seek d t 0 \<le> length d - 1"
    using seek_le [of d t 0] by simp
  ultimately have eq: "seek d t 0 = length d - 1"
    by simp
  have "length d - 2 < seek d t 0"
    using eq len by simp
  then have "d ! (length d - 2 + 1) < t"
    by (intro seek_passed) simp_all
  moreover have "length d - 2 + 1 = length d - 1"
    using len by simp
  ultimately show False
    using t by simp
qed

lemma seek_lower:
  assumes "d ! 0 \<le> t"
  shows "d ! seek d t 0 \<le> t"
proof (cases "seek d t 0")
  case 0
  then show ?thesis using assms by simp
next
  case (Suc k)
  then have "d ! (k + 1) < t"
    using seek_passed [of 0 k d t] by simp
  then show ?thesis using Suc by simp
qed

lemma js_round_ge: "2 \<le> nat (max 2 (js_round r))"
  by simp

lemma resample_points:
  assumes "2 \<le> length pts" "0 < s"
  defines "d \<equiv> 0 # cumDist 0 pts"
  defines "totalLen \<equiv> d ! (length pts - 1)"
  defines "n \<equiv> nat (max 2 (js_round (totalLen / s)))"
  shows "\<exists>out. resamplePath pts s = Some out \<and> length out = n + 1 \<and>
     (\<forall>i\<le>n. \<exists>j tt. j + 1 < length pts \<and> 0 \<le> tt \<and> tt \<le> 1 \<and>
        d ! j + tt * (d ! (j + 1) - d ! j) = real i * (totalLen / real n) \<and>
        d ! (j + 1) - d ! j = distance (pts ! (j + 1)) (pts ! j) \<and>
        out ! i = \<lparr>px = px (pts ! j) + (px (pts ! (j + 1)) - px (pts ! j)) * tt,
                   py = py (pts ! j) + (py (pts ! (j + 1)) - py (pts ! j)) * tt\<rparr>)"
proof -
  have lend: "length d = length pts"
    using assms(1) by (simp add: d_def cumDist_length)
  have tot: "totalLen = d ! (length d - 1)"
    by (simp add: totalLen_def lend)
  have tot0: "0 \<le> totalLen"
    unfolding tot d_def by (rule cum_total_nonneg)
  have n2: "2 \<le> n"
    by (simp add: n_def)
  have res: "resamplePath pts s = Some (map (samplePoint pts d totalLen n) [0..<n + 1])"
    unfolding n_def tot using assms(1,2) by (simp add: resamplePath_def Let_def d_def)
  have pt: "\<exists>j tt. j + 1 < length pts \<and> 0 \<le> tt \<and> tt \<le> 1 \<and>
        d ! j + tt * (d ! (j + 1) - d ! j) = real i * (totalLen / real n) \<and>
        d ! (j + 1) - d ! j = distance (pts ! (j + 1)) (pts ! j) \<and>
        samplePoint pts d totalLen n i = \<lparr>px = px (pts ! j) + (px (pts ! (j + 1)) - px (pts ! j)) * tt,
                   py = py (pts ! j) + (py (pts ! (j + 1)) - py (pts ! j)) * tt\<rparr>"
    if i: "i \<le> n" for i
  proof -
    define t where "t = (real i / real n) * totalLen"
    define j where "j = seek d t 0"
    define w where "w = d ! (j + 1) - d ! j"
    define tt where "tt = (t - d ! j) / orElse1 w"
    have "real i / real n \<le> 1"
      using i n2 by simp
    then have "(real i / real n) * totalLen \<le> 1 * totalLen"
      using tot0 by (intro mult_right_mono)
    then have t_le: "t \<le> totalLen"
      unfolding t_def by simp
    have t_ge: "0 \<le> t"
      unfolding t_def using tot0 by simp
    have jr: "j + 1 < length d"
      unfolding j_def using lend assms(1) t_le tot by (intro seek_in_range) simp_all
    have lo: "d ! j \<le> t"
      unfolding j_def using t_ge by (intro seek_lower) (simp add: d_def)
    have hi: "t \<le> d ! (j + 1)"
      unfolding j_def using jr by (intro seek_next) (simp add: j_def)
    have wd: "w = distance (pts ! (j + 1)) (pts ! j)"
      unfolding w_def d_def using jr lend cum_nth_step [of j pts 0] by simp
    have w0: "0 \<le> w"
      unfolding wd by simp
    have tt0: "0 \<le> tt"
      unfolding tt_def orElse1_def using lo w0 by simp
    have tt1: "tt \<le> 1"
      unfolding tt_def orElse1_def using lo hi w0 by (simp add: w_def)
    have arc: "d ! j + tt * w = t"
    proof (cases "w = 0")
      case True
      then have "t = d ! j" using lo hi by (simp add: w_def)
      then show ?thesis using True by (simp add: tt_def)
    next
      case False
      then show ?thesis by (simp add: tt_def orElse1_def)
    qed
    have "samplePoint pts d totalLen n i = \<lparr>px = px (pts ! j) + (px (pts ! (j + 1)) - px (pts ! j)) * tt,
                   py = py (pts ! j) + (py (pts ! (j + 1)) - py (pts ! j)) * tt\<rparr>"
      by (simp add: samplePoint_def Let_def t_def j_def tt_def w_def)
    moreover have "t = real i * (totalLen / real n)"
      by (simp add: t_def)
    ultimately show ?thesis
      using jr lend tt0 tt1 arc wd unfolding w_def by metis
  qed
  have "\<forall>i\<le>n. \<exists>j tt. j + 1 < length pts \<and> 0 \<le> tt \<and> tt \<le> 1 \<and>
        d ! j + tt * (d ! (j + 1) - d ! j) = real i * (totalLen / real n) \<and>
        d ! (j + 1) - d ! j = distance (pts ! (j + 1)) (pts ! j) \<and>
        map (samplePoint pts d totalLen n) [0..<n + 1] ! i = \<lparr>px = px (pts ! j) + (px (pts ! (j + 1)) - px (pts ! j)) * tt,
                   py = py (pts ! j) + (py (pts ! (j + 1)) - py (pts ! j)) * tt\<rparr>"
  proof (intro allI impI)
    fix i assume i: "i \<le> n"
    then have "map (samplePoint pts d totalLen n) [0..<n + 1] ! i = samplePoint pts d totalLen n i"
      by (simp add: nth_append less_Suc_eq_le del: upt_Suc)
    then show "\<exists>j tt. j + 1 < length pts \<and> 0 \<le> tt \<and> tt \<le> 1 \<and>
        d ! j + tt * (d ! (j + 1) - d ! j) = real i * (totalLen / real n) \<and>
        d ! (j + 1) - d ! j = distance (pts ! (j + 1)) (pts ! j) \<and>
        map (samplePoint pts d totalLen n) [0..<n + 1] ! i = \<lparr>px = px (pts ! j) + (px (pts ! (j + 1)) - px (pts ! j)) * tt,
                   py = py (pts ! j) + (py (pts ! (j + 1)) - py (pts ! j)) * tt\<rparr>"
      using pt [OF i] by simp
  qed
  then show ?thesis
    unfolding res by simp
qed


text \<open>
  C4, amended: for every path of at least 2 points and every spacing \<open>s > 0\<close>,
  \<open>resamplePath\<close> returns a path of exactly \<open>n + 1\<close> points, where
  \<open>n = max(2, round(totalArcLength / s))\<close>: the points at the arc lengths
  \<open>i * totalArcLength / n\<close> for \<open>i = 0, ..., n\<close> along the polyline, each obtained by
  linear interpolation (with a weight between 0 and 1) between two consecutive input
  vertices found in the list of cumulative distances.
\<close>

theorem C4_resample:
  assumes "2 \<le> length pts" "0 < s"
  shows "\<exists>out. resamplePath pts s = Some out \<and>
     (let d = 0 # cumDist 0 pts;
          totalLen = d ! (length pts - 1);
          n = nat (max 2 (js_round (totalLen / s)))
      in length out = n + 1 \<and>
         (\<forall>i\<le>n. \<exists>j tt. j + 1 < length pts \<and> 0 \<le> tt \<and> tt \<le> 1 \<and>
            d ! j + tt * (d ! (j + 1) - d ! j) = real i * (totalLen / real n) \<and>
            d ! (j + 1) - d ! j = distance (pts ! (j + 1)) (pts ! j) \<and>
            out ! i = \<lparr>px = px (pts ! j) + (px (pts ! (j + 1)) - px (pts ! j)) * tt,
                       py = py (pts ! j) + (py (pts ! (j + 1)) - py (pts ! j)) * tt\<rparr>))"
  unfolding Let_def using assms by (rule resample_points)

lemma cum_twoPoints: "0 # cumDist 0 twoPoints = [0, 1]"
  by (simp add: twoPoints_def distance_def)

lemma length_twoPoints: "length twoPoints = 2"
  by (simp add: twoPoints_def)

text \<open>Two points one unit apart at spacing 1/4: \<open>n = 4\<close>, and 5 points.\<close>

theorem C4_resample_witness:
  "\<exists>out. resamplePath twoPoints (1 / 4) = Some out \<and> length out = 5"
proof -
  have "nat (max 2 (js_round ((0 # cumDist 0 twoPoints) ! (length twoPoints - 1) / (1 / 4)))) + 1 = 5"
    by (simp add: cum_twoPoints length_twoPoints js_round_def)
  then show ?thesis
    using C4_resample [of twoPoints "1 / 4"] by (auto simp: length_twoPoints Let_def)
qed

text \<open>
  C4, as stated, fails: for two points one unit apart and spacing 1, \<open>n\<close> is
  \<open>max(2, round(1/1)) = 2\<close>, and the resampler returns 3 points, not 2: its loop runs
  for \<open>i = 0, ..., n\<close>.
\<close>

theorem C4_counterexample:
  "resamplePath twoPoints 1 = Some [\<lparr>px = 0, py = 0\<rparr>, \<lparr>px = 1 / 2, py = 0\<rparr>, \<lparr>px = 1, py = 0\<rparr>] \<and>
   max 2 (js_round ((0 # cumDist 0 twoPoints) ! (length twoPoints - 1) / 1)) = 2"
proof -
  have "resamplePath twoPoints 1
      = Some (map (samplePoint twoPoints [0, 1] 1 2) [0..<2] @ [samplePoint twoPoints [0, 1] 1 2 2])"
    by (simp add: resamplePath_def Let_def length_twoPoints cum_twoPoints js_round_def)
  moreover have "map (samplePoint twoPoints [0, 1] 1 2) [0..<2] @ [samplePoint twoPoints [0, 1] 1 2 2]
      = [\<lparr>px = 0, py = 0\<rparr>, \<lparr>px = 1 / 2, py = 0\<rparr>, \<lparr>px = 1, py = 0\<rparr>]"
    by (simp add: samplePoint_def Let_def seek_stop seek_step orElse1_def twoPoints_def upt_rec)
  ultimately show ?thesis
    by (simp add: cum_twoPoints length_twoPoints js_round_def)
qed

lemma js_round_of_nat [simp]: "js_round (real k) = int k"
  unfolding js_round_def by linarith

lemma cum_uniform:
  assumes "\<forall>i. i + 1 < length pts \<longrightarrow> distance (pts ! (i + 1)) (pts ! i) = s"
  shows "k < length pts \<Longrightarrow> (0 # cumDist 0 pts) ! k = real k * s"
proof (induction k)
  case 0
  show ?case by simp
next
  case (Suc k)
  then have "(0 # cumDist 0 pts) ! (k + 1) = (0 # cumDist 0 pts) ! k + distance (pts ! (k + 1)) (pts ! k)"
    by (intro cum_nth_step) simp
  then show ?case
    using Suc assms by (simp add: algebra_simps)
qed

lemma seek_uniform:
  assumes d: "\<forall>k<length d. d ! k = real k * s" and s: "0 < s" and i: "i < length d"
  shows "seek d (real i * s) 0 = i - 1"
proof -
  define j where "j = seek d (real i * s) 0"
  have jle: "j \<le> length d - 1"
    using seek_le [of d "real i * s" 0] by (simp add: j_def)
  have "\<not> j < i - 1"
  proof
    assume lt: "j < i - 1"
    then have "j < length d - 1" using i by simp
    then have "real i * s \<le> d ! (j + 1)"
      unfolding j_def by (rule seek_next)
    moreover have "d ! (j + 1) = real (j + 1) * s"
      using d lt i by simp
    ultimately have "real i \<le> real (j + 1)"
      using s by simp
    then show False using lt by simp
  qed
  moreover have "\<not> i - 1 < j"
  proof
    assume gt: "i - 1 < j"
    then have "d ! (j - 1 + 1) < real i * s"
      using seek_passed [of 0 "j - 1" d "real i * s"] by (simp add: j_def)
    moreover have "d ! (j - 1 + 1) = real j * s"
      using d jle gt i by simp
    ultimately have "real j < real i"
      using s by simp
    then show False using gt by simp
  qed
  ultimately show ?thesis
    unfolding j_def by simp
qed

text \<open>
  C9, as stated, fails: a path of two points 2 apart is uniformly spaced at spacing 2, and
  resampling it at spacing 2 returns 3 points, the midpoint added, since \<open>n\<close> is never
  less than 2.
\<close>

theorem C9_counterexample:
  "distance ([\<lparr>px = 0, py = 0\<rparr>, \<lparr>px = 2, py = 0\<rparr>] ! 1) ([\<lparr>px = 0, py = 0\<rparr>, \<lparr>px = 2, py = 0\<rparr>] ! 0) = 2 \<and>
   resamplePath [\<lparr>px = 0, py = 0\<rparr>, \<lparr>px = 2, py = 0\<rparr>] 2
     = Some [\<lparr>px = 0, py = 0\<rparr>, \<lparr>px = 1, py = 0\<rparr>, \<lparr>px = 2, py = 0\<rparr>]"
proof -
  let ?P = "[\<lparr>px = 0, py = 0\<rparr>, \<lparr>px = 2, py = 0\<rparr>]"
  have cum: "0 # cumDist 0 ?P = [0, 2]"
    by (simp add: distance_def)
  have "resamplePath ?P 2
      = Some (map (samplePoint ?P [0, 2] 2 2) [0..<2] @ [samplePoint ?P [0, 2] 2 2 2])"
    by (simp add: resamplePath_def Let_def distance_def js_round_def)
  moreover have "map (samplePoint ?P [0, 2] 2 2) [0..<2] @ [samplePoint ?P [0, 2] 2 2 2]
      = [\<lparr>px = 0, py = 0\<rparr>, \<lparr>px = 1, py = 0\<rparr>, \<lparr>px = 2, py = 0\<rparr>]"
    by (simp add: samplePoint_def Let_def seek_stop seek_step orElse1_def upt_rec)
  ultimately show ?thesis
    by (simp add: distance_def)
qed

lemma resample_uniform:
  assumes "3 \<le> length pts" "0 < s"
    and "\<forall>i. i + 1 < length pts \<longrightarrow> distance (pts ! (i + 1)) (pts ! i) = s"
  shows "resamplePath pts s = Some pts"
proof -
  define d where "d = 0 # cumDist 0 pts"
  define m where "m = length pts - 1"
  have lend: "length d = length pts"
    using assms(1) by (simp add: d_def cumDist_length)
  have dk: "\<forall>k<length d. d ! k = real k * s"
    unfolding d_def using cum_uniform [OF assms(3)] lend d_def by simp
  have m2: "2 \<le> m" "length pts = m + 1"
    using assms(1) by (simp_all add: m_def)
  have tot: "d ! (length d - 1) = real m * s"
    using dk lend m2 by simp
  have n: "nat (max 2 (js_round (d ! (length d - 1) / s))) = m"
    unfolding tot using assms(2) m2 by simp
  have res: "resamplePath pts s = Some (map (samplePoint pts d (real m * s) m) [0..<m + 1])"
    using assms(1,2) n tot unfolding d_def by (simp add: resamplePath_def Let_def)
  have pt: "samplePoint pts d (real m * s) m i = pts ! i" if i: "i < m + 1" for i
  proof -
    have t: "(real i / real m) * (real m * s) = real i * s"
      using m2 by simp
    have j: "seek d (real i * s) 0 = i - 1"
      using dk assms(2) i lend m2 by (intro seek_uniform) simp_all
    show ?thesis
    proof (cases i)
      case 0
      have "d ! 0 = 0" "d ! 1 = s"
        using dk lend m2 by simp_all
      then show ?thesis
        unfolding samplePoint_def Let_def t j using 0 by simp
    next
      case (Suc k)
      have "d ! k = real k * s" "d ! (k + 1) = real (k + 1) * s"
        using dk lend m2 i Suc by simp_all
      then have "(real i * s - d ! k) / orElse1 (d ! (k + 1) - d ! k) = 1"
        using Suc assms(2) by (simp add: orElse1_def algebra_simps)
      then show ?thesis
        unfolding samplePoint_def Let_def t j using Suc by simp
    qed
  qed
  have "map (samplePoint pts d (real m * s) m) [0..<m + 1] = pts"
  proof (rule nth_equalityI)
    show "length (map (samplePoint pts d (real m * s) m) [0..<m + 1]) = length pts"
      using m2 by simp
  next
    fix i assume "i < length (map (samplePoint pts d (real m * s) m) [0..<m + 1])"
    then have i: "i < m + 1" by simp
    then have "map (samplePoint pts d (real m * s) m) [0..<m + 1] ! i = samplePoint pts d (real m * s) m i"
      by (simp add: nth_append less_Suc_eq_le del: upt_Suc)
    then show "map (samplePoint pts d (real m * s) m) [0..<m + 1] ! i = pts ! i"
      using pt [OF i] by simp
  qed
  then show ?thesis
    using res by simp
qed

text \<open>
  C9, amended: for every path that is uniformly spaced at spacing \<open>s > 0\<close> (every two
  consecutive points are \<open>s\<close> apart) and does not consist of exactly 2 points,
  resampling it at spacing \<open>s\<close> returns the path itself: the same number of points,
  each equal to the original.
\<close>

theorem C9_resample_uniform:
  assumes "length pts \<noteq> 2" "0 < s"
    and "\<forall>i. i + 1 < length pts \<longrightarrow> distance (pts ! (i + 1)) (pts ! i) = s"
  shows "resamplePath pts s = Some pts"
proof (cases "length pts < 2")
  case True
  then show ?thesis by (simp add: resamplePath_def)
next
  case False
  then have "3 \<le> length pts"
    using assms(1) by simp
  then show ?thesis
    using assms(2,3) by (rule resample_uniform)
qed

text \<open>The three points of \<open>rightAngle\<close> are one unit apart, and resampling at spacing 1 returns them.\<close>

theorem C9_resample_uniform_witness:
  "resamplePath rightAngle 1 = Some rightAngle"
proof (rule C9_resample_uniform)
  show "length rightAngle \<noteq> 2"
    by (simp add: length_rightAngle)
  show "(0::real) < 1"
    by simp
  show "\<forall>i. i + 1 < length rightAngle \<longrightarrow> distance (rightAngle ! (i + 1)) (rightAngle ! i) = 1"
  proof (intro allI impI)
    fix i assume "i + 1 < length rightAngle"
    then have "i = 0 \<or> i = 1"
      by (auto simp: length_rightAngle)
    then show "distance (rightAngle ! (i + 1)) (rightAngle ! i) = 1"
      by (auto simp: rightAngle_def distance_def)
  qed
qed

section \<open>Properties of the optimizer\<close>

lemma resamplePath_spacing_3:
  "2 \<le> length pts \<Longrightarrow> \<exists>out. resamplePath pts 3 = Some out \<and> 3 \<le> length out"
  by (simp add: resamplePath_def Let_def)

lemma length_centerOf [simp]: "length (centerOf left right) = min (length left) (length right)"
  by (simp add: centerOf_def)

lemma mapE_Inl: "x \<in> set xs \<Longrightarrow> f x = Inl TypeError \<Longrightarrow> mapE f xs = Inl TypeError"
proof (induction xs)
  case Nil
  then show ?case by simp
next
  case (Cons y ys)
  show ?case
  proof (cases "f y")
    case (Inl e)
    then show ?thesis by (cases e) simp
  next
    case (Inr b)
    then have "x \<in> set ys" using Cons.prems by auto
    then have "mapE f ys = Inl TypeError" using Cons by blast
    then show ?thesis using Inr by simp
  qed
qed

lemma js_round_last_index:
  assumes "0 < n"
  shows "js_round (real (8 * n - 1) * real n / real (8 * n)) = int n"
proof -
  have "real (8 * n - 1) = 8 * real n - 1"
    using assms by (simp add: of_nat_diff)
  then have "real (8 * n - 1) * real n / real (8 * n) = real n - 1 / 8"
    using assms by (simp add: field_simps)
  then show ?thesis
    unfolding js_round_def by linarith
qed

lemma elemAt_length [simp]: "elemAt xs (int (length xs)) = None"
  by (simp add: elemAt_def)

lemma allowedAt_last_throws:
  assumes "3 \<le> length left" "3 \<le> length right"
    and "length cand = 8 * min (length left) (length right)"
  shows "allowedAt left right cand normals (length cand - 1) = Inl TypeError"
proof (cases "length left \<le> length right")
  case True
  then have c: "length cand = 8 * length left"
    using assms(3) by simp
  have "js_round (real (length cand - 1) * real (length left) / real (length cand))
      = int (length left)"
    unfolding c using assms(1) by (intro js_round_last_index) auto
  then show ?thesis
    by (simp add: allowedAt_def Let_def)
next
  case False
  then have c: "length cand = 8 * length right"
    using assms(3) by simp
  have "js_round (real (length cand - 1) * real (length right) / real (length cand))
      = int (length right)"
    unfolding c using assms(2) by (intro js_round_last_index) auto
  then show ?thesis
    by (simp add: allowedAt_def Let_def split: option.splits)
qed

lemma allowedOf_throws:
  assumes "3 \<le> length left" "3 \<le> length right"
    and "length cand = 8 * min (length left) (length right)"
  shows "allowedOf left right cand normals = Inl TypeError"
  unfolding allowedOf_def
proof (rule mapE_Inl)
  show "length cand - 1 \<in> set [0..<length cand]"
    using assms by simp
  show "allowedAt left right cand normals (length cand - 1) = Inl TypeError"
    using assms by (rule allowedAt_last_throws)
qed

lemma optimizer_corridor_throws:
  assumes "2 \<le> length leftPoints" "2 \<le> length rightPoints" "5 \<le> length centerline"
  shows "optimizeRacingLine leftPoints rightPoints centerline opts rnd iterations
           = CorridorThrew TypeError"
proof -
  obtain left where left: "resamplePath leftPoints 3 = Some left" "3 \<le> length left"
    using resamplePath_spacing_3 [OF assms(1)] by blast
  obtain right where right: "resamplePath rightPoints 3 = Some right" "3 \<le> length right"
    using resamplePath_spacing_3 [OF assms(2)] by blast
  let ?path = "smoothPath (centerOf left right) 3"
  have "\<not> min (length left) (length right) < 3"
    using left(2) right(2) by simp
  then have "length ?path = 8 * min (length left) (length right)"
    by (simp add: length_smoothPath)
  then have "allowedOf left right ?path (normalsOf ?path) = Inl TypeError"
    using left(2) right(2) by (intro allowedOf_throws)
  then show ?thesis
    using assms(3) left(1) right(1) by (simp add: optimizeRacingLine_def Let_def)
qed

lemma resamplePath_3_returns: "\<exists>out. resamplePath pts 3 = Some out"
  by (simp add: resamplePath_def Let_def)

lemma resamplePath_short: "length pts < 2 \<Longrightarrow> resamplePath pts s = Some pts"
  by (simp add: resamplePath_def)

lemma hillClimb_short_seed: "length seed < 2 \<Longrightarrow> hillClimb opts normals allowed rnd iterations seed = NoBaseline"
  by (simp add: hillClimb_def simulateLap_def)

lemma optimizer_short_edge:
  assumes "length leftPoints < 2 \<or> length rightPoints < 2"
  shows "optimizeRacingLine leftPoints rightPoints centerline opts rnd iterations = Alerted \<or>
         optimizeRacingLine leftPoints rightPoints centerline opts rnd iterations = CorridorThrew TypeError \<or>
         optimizeRacingLine leftPoints rightPoints centerline opts rnd iterations = NoBaseline"
proof -
  obtain left where left: "resamplePath leftPoints 3 = Some left"
    using resamplePath_3_returns by blast
  obtain right where right: "resamplePath rightPoints 3 = Some right"
    using resamplePath_3_returns by blast
  have "length left < 2 \<or> length right < 2"
    using assms left right resamplePath_short [of leftPoints 3] resamplePath_short [of rightPoints 3]
    by auto
  then have short: "length (centerOf left right) < 2"
    by auto
  let ?path = "smoothPath (centerOf left right) 3"
  have path: "length ?path < 2"
    using short by (simp add: length_smoothPath)
  show ?thesis
  proof (cases "length centerline < 5")
    case True
    then show ?thesis by (simp add: optimizeRacingLine_def)
  next
    case False
    show ?thesis
    proof (cases "allowedOf left right ?path (normalsOf ?path)")
      case (Inl e)
      then have "optimizeRacingLine leftPoints rightPoints centerline opts rnd iterations
          = CorridorThrew TypeError"
        using False left right by (cases e) (simp add: optimizeRacingLine_def Let_def)
      then show ?thesis by simp
    next
      case (Inr allowed)
      then have "optimizeRacingLine leftPoints rightPoints centerline opts rnd iterations
          = hillClimb opts (normalsOf ?path) allowed rnd iterations ?path"
        using False left right by (simp add: optimizeRacingLine_def Let_def)
      then show ?thesis
        using hillClimb_short_seed [OF path] by simp
    qed
  qed
qed

text \<open>
  C1, on the code: no call of \<open>optimizeRacingLine\<close> reaches its hill climb. Every call
  ends with the alert, with the exception of the corridor builder (for every pair of
  edges of at least 2 points each), or with the \<open>return\<close> after a failed
  baseline simulation (an edge of fewer than 2 points leaves a path of at most one
  point). So no iteration runs, no best lap time is tracked from iteration to iteration,
  and no racing line is returned whose lap time could be compared with the seed's.
\<close>

theorem C1_optimizer_never_finishes:
  "optimizeRacingLine leftPoints rightPoints centerline opts rnd iterations = Alerted \<or>
   optimizeRacingLine leftPoints rightPoints centerline opts rnd iterations = CorridorThrew TypeError \<or>
   optimizeRacingLine leftPoints rightPoints centerline opts rnd iterations = NoBaseline"
proof (cases "length leftPoints < 2 \<or> length rightPoints < 2")
  case True
  then show ?thesis by (rule optimizer_short_edge)
next
  case False
  then have edges: "2 \<le> length leftPoints" "2 \<le> length rightPoints"
    by simp_all
  show ?thesis
  proof (cases "length centerline < 5")
    case True
    then show ?thesis by (simp add: optimizeRacingLine_def)
  next
    case False
    then have "5 \<le> length centerline" by simp
    then have "optimizeRacingLine leftPoints rightPoints centerline opts rnd iterations
        = CorridorThrew TypeError"
      using edges by (intro optimizer_corridor_throws)
    then show ?thesis by simp
  qed
qed

text \<open>
  The tries themselves, on lap times that are numbers, never raise \<open>bestTime\<close>: what the
  loop would do were it reached.
\<close>

lemma tryShift_best_le:
  assumes "tryShift opts normals allowed rnd iterations it s = Inr s'" "bestTime s = Num b"
  shows "\<exists>b'. bestTime s' = Num b' \<and> b' \<le> b"
proof -
  have "bestTime s' = bestTime s \<or> js_lt (bestTime s') (bestTime s)"
    using assms(1)
    by (auto simp: tryShift_def Let_def split: option.splits sum.splits if_splits)
  then show ?thesis
    using assms(2) by (cases "bestTime s'") (auto simp: js_lt_def)
qed

lemma tries_best_le:
  assumes "tries opts normals allowed rnd iterations it k s = (e, s')" "bestTime s = Num b"
  shows "\<exists>b'. bestTime s' = Num b' \<and> b' \<le> b"
  using assms
proof (induction k arbitrary: s b)
  case 0
  then show ?case by simp
next
  case (Suc k)
  show ?case
  proof (cases "tryShift opts normals allowed rnd iterations it s")
    case (Inl err)
    then show ?thesis using Suc.prems by simp
  next
    case (Inr s1)
    then obtain b1 where b1: "bestTime s1 = Num b1" "b1 \<le> b"
      using tryShift_best_le Suc.prems(2) by blast
    have "tries opts normals allowed rnd iterations it k s1 = (e, s')"
      using Inr Suc.prems(1) by simp
    then obtain b' where "bestTime s' = Num b'" "b' \<le> b1"
      using Suc.IH b1(1) by blast
    then show ?thesis
      using b1(2) by auto
  qed
qed

lemma allowedAt_bounds:
  assumes "elemAt left (js_round (real i * real (length left) / real (length cand))) = Some l"
    and "elemAt right (js_round (real i * real (length right) / real (length cand))) = Some r"
  shows "allowedAt left right cand normals i =
     Inr \<lparr>bmin = min ((px l - px (cand ! i)) * nx (normals ! i) + (py l - py (cand ! i)) * ny (normals ! i))
                    ((px r - px (cand ! i)) * nx (normals ! i) + (py r - py (cand ! i)) * ny (normals ! i)),
          bmax = max ((px l - px (cand ! i)) * nx (normals ! i) + (py l - py (cand ! i)) * ny (normals ! i))
                    ((px r - px (cand ! i)) * nx (normals ! i) + (py r - py (cand ! i)) * ny (normals ! i))\<rparr>"
  using assms by (simp add: allowedAt_def Let_def)

text \<open>
  C8, on the code: the corridor builder does not give every centerline sample a bound.
  The pairing index \<open>Math.round(i*left.length/candidate.length)\<close> reaches the length of
  the shorter edge for the last samples (the path has 8 times as many samples as the
  shorter edge has points), the edge point is \<open>undefined\<close>, and reading its coordinate
  throws. For the two straight edges, as for every pair of edges of at least 2 points
  (\<open>optimizer_corridor_throws\<close>), \<open>optimizeRacingLine\<close> ends with that exception, whatever
  the random draws and the iteration budget.
\<close>

theorem C8_corridor_throws:
  "\<exists>c. computeCenterlineFromEdges straightLeft straightRight = Some c \<and>
       optimizeRacingLine straightLeft straightRight c defaultPhysics rnd iterations
         = CorridorThrew TypeError"
proof -
  have l: "length straightLeft = 5" and r: "length straightRight = 5"
    by (simp_all add: straightLeft_def straightRight_def)
  obtain left where left: "resamplePath straightLeft 3 = Some left" "3 \<le> length left"
    using resamplePath_spacing_3 [of straightLeft] l by auto
  obtain right where right: "resamplePath straightRight 3 = Some right" "3 \<le> length right"
    using resamplePath_spacing_3 [of straightRight] r by auto
  let ?c = "smoothPath (centerOf left right) 4"
  have c: "computeCenterlineFromEdges straightLeft straightRight = Some ?c"
    by (simp add: computeCenterlineFromEdges_def l r left(1) right(1))
  have "\<not> min (length left) (length right) < 3"
    using left(2) right(2) by simp
  then have "length ?c = min (length left) (length right) * 16"
    by (simp add: length_smoothPath)
  then have "5 \<le> length ?c"
    using left(2) right(2) by simp
  then have "optimizeRacingLine straightLeft straightRight ?c defaultPhysics rnd iterations
      = CorridorThrew TypeError"
    using l r by (intro optimizer_corridor_throws) simp_all
  then show ?thesis
    using c by blast
qed

section \<open>Properties of the curvature estimator\<close>

text \<open>
  In real arithmetic both divisors of \<open>computeCurvature\<close> are non-zero, since \<open>|| 1\<close>
  replaces a zero, and the tangent components are at most 1 in magnitude.
\<close>

lemma orElse1_nonzero: "orElse1 r \<noteq> 0"
  by (simp add: orElse1_def)

lemma abs_le_hypot_left: "\<bar>a\<bar> \<le> hypot a b"
  unfolding hypot_def by (simp add: real_le_rsqrt power2_eq_square)

lemma abs_le_hypot_right: "\<bar>b\<bar> \<le> hypot a b"
  unfolding hypot_def by (simp add: real_le_rsqrt power2_eq_square)

lemma unit_component_left: "\<bar>a / orElse1 (hypot a b)\<bar> \<le> 1"
proof (cases "hypot a b = 0")
  case True
  then show ?thesis by simp
next
  case False
  then have "0 < hypot a b"
    using hypot_nonneg [of a b] by linarith
  then show ?thesis
    using abs_le_hypot_left [of a b] False by (simp add: orElse1_def)
qed

lemma unit_component_right: "\<bar>b / orElse1 (hypot a b)\<bar> \<le> 1"
proof (cases "hypot a b = 0")
  case True
  then show ?thesis by simp
next
  case False
  then have "0 < hypot a b"
    using hypot_nonneg [of a b] by linarith
  then show ?thesis
    using abs_le_hypot_right [of b a] False by (simp add: orElse1_def)
qed

lemma tangent_bounded: "\<bar>tx (curvatureAt pts i)\<bar> \<le> 1 \<and> \<bar>ty (curvatureAt pts i)\<bar> \<le> 1"
  unfolding curvatureAt_def Let_def curvature.select_convs
  by (intro conjI unit_component_left unit_component_right)

subsection \<open>On the range of doubles\<close>

lemma overflowAt_pos: "0 < overflowAt"
  by (simp add: overflowAt_def)

lemma underflowAt_pos: "0 < underflowAt"
  by (simp add: underflowAt_def)

lemma one_lt_overflowAt: "1 < overflowAt"
  by (simp add: overflowAt_def)

lemma big_lt_overflowAt: "128 * (10 ^ 100) ^ 3 < overflowAt"
  by (simp add: overflowAt_def)

lemma pow360_lt_overflowAt: "2 ^ 360 < overflowAt"
  by (simp add: overflowAt_def)

lemma small_cube: "(1 / 2 ^ 359) ^ 3 \<le> underflowAt"
  by (simp add: underflowAt_def power_divide divide_simps)

lemma fl_value:
  assumes "\<bar>x\<bar> < overflowAt"
  obtains v where "fl x = Dbl v" and "\<bar>v\<bar> \<le> \<bar>x\<bar>"
    and "v = 0 \<or> (v = x \<and> underflowAt < \<bar>x\<bar>)"
proof (cases "\<bar>x\<bar> \<le> underflowAt")
  case True
  with assms have "fl x = Dbl 0"
    unfolding fl_def by (simp add: abs_less_iff not_le)
  then show ?thesis
    using that [of 0] by simp
next
  case False
  with assms have "fl x = Dbl x"
    unfolding fl_def by (simp add: abs_less_iff not_le)
  then show ?thesis
    using that [of x] False by simp
qed

lemma isFinite_fl: "\<bar>x\<bar> < overflowAt \<Longrightarrow> isFinite (fl x)"
  by (erule fl_value) simp

lemma hypot_le_sum: "hypot a b \<le> \<bar>a\<bar> + \<bar>b\<bar>"
proof -
  have "a * a + b * b \<le> (\<bar>a\<bar> + \<bar>b\<bar>)\<^sup>2"
  proof -
    have "(\<bar>a\<bar> + \<bar>b\<bar>)\<^sup>2 = a * a + b * b + 2 * (\<bar>a\<bar> * \<bar>b\<bar>)"
      by (simp add: power2_eq_square algebra_simps)
    moreover have "0 \<le> \<bar>a\<bar> * \<bar>b\<bar>"
      by simp
    ultimately show ?thesis
      by linarith
  qed
  then show ?thesis
    unfolding hypot_def by (intro real_le_lsqrt) simp_all
qed

lemma d_or1_nonzero: "d_or1 x \<noteq> Dbl 0"
  by (simp add: d_or1_def)

lemma diff_value:
  assumes "\<bar>x\<bar> \<le> b" and "\<bar>y\<bar> \<le> b" and "2 * b < overflowAt"
  obtains v where "d_sub (Dbl x) (Dbl y) = Dbl v" and "\<bar>v\<bar> \<le> 2 * b"
proof -
  have "\<bar>x + - y\<bar> < overflowAt"
    using assms by linarith
  then obtain v where "fl (x + - y) = Dbl v" and "\<bar>v\<bar> \<le> \<bar>x + - y\<bar>"
    by (rule fl_value)
  then show ?thesis
    using that [of v] assms by (simp add: d_sub_def)
qed

lemma half_value:
  assumes "\<bar>a\<bar> \<le> c" and "\<bar>b\<bar> \<le> c" and "2 * c < overflowAt"
  obtains v where "d_div (d_add (Dbl a) (Dbl b)) (Dbl 2) = Dbl v" and "\<bar>v\<bar> \<le> c"
proof -
  have "\<bar>a + b\<bar> < overflowAt"
    using assms by linarith
  then obtain s where s: "fl (a + b) = Dbl s" "\<bar>s\<bar> \<le> \<bar>a + b\<bar>"
    by (rule fl_value)
  then have "\<bar>s / 2\<bar> < overflowAt"
    using assms by simp
  then obtain v where v: "fl (s / 2) = Dbl v" "\<bar>v\<bar> \<le> \<bar>s / 2\<bar>"
    by (rule fl_value)
  have "\<bar>v\<bar> \<le> c"
    using v(2) s(2) assms by simp
  then show ?thesis
    using that [of v] s(1) v(1) by simp
qed

lemma unit_finite:
  assumes "\<bar>u\<bar> \<le> c" and "2 * c < overflowAt"
  shows "isFinite (d_div (Dbl u) (d_or1 (fl (hypot u w))))"
    and "isFinite (d_div (Dbl u) (d_or1 (fl (hypot w u))))"
proof -
  have c: "0 \<le> c"
    using assms(1) by linarith
  have u: "\<bar>u\<bar> < overflowAt"
    using assms c by linarith
  have one: "isFinite (d_div (Dbl u) (d_or1 (fl h)))"
    if h: "\<bar>u\<bar> \<le> h" for h
  proof (cases "fl h = Dbl h \<and> h \<noteq> 0")
    case True
    then have "0 < h"
      using h by linarith
    then have "\<bar>u / h\<bar> \<le> 1"
      using h by simp
    then have "isFinite (fl (u / h))"
      using one_lt_overflowAt by (intro isFinite_fl) linarith
    then show ?thesis
      using True by (simp add: d_or1_def)
  next
    case False
    show ?thesis
    proof (cases "fl h")
      case (Dbl v)
      then have "v = 0"
        using False by (auto simp: fl_def split: if_splits)
      then show ?thesis
        using Dbl u by (simp add: d_or1_def isFinite_fl)
    next
      case DInf
      then show ?thesis
        by (simp add: d_or1_def)
    next
      case DNegInf
      then show ?thesis
        by (simp add: d_or1_def)
    next
      case DNaN
      then show ?thesis
        using u by (simp add: d_or1_def isFinite_fl)
    qed
  qed
  show "isFinite (d_div (Dbl u) (d_or1 (fl (hypot u w))))"
    by (rule one) (rule abs_le_hypot_left)
  show "isFinite (d_div (Dbl u) (d_or1 (fl (hypot w u))))"
    by (rule one) (rule abs_le_hypot_right)
qed

lemma cross_le_lengths: "\<bar>a1\<bar> * \<bar>b2\<bar> + \<bar>b1\<bar> * \<bar>a2\<bar> \<le> 2 * (hypot a1 b1 * hypot a2 b2)"
proof -
  have "\<bar>a1\<bar> * \<bar>b2\<bar> \<le> hypot a1 b1 * hypot a2 b2"
    by (intro mult_mono abs_le_hypot_left abs_le_hypot_right) simp_all
  moreover have "\<bar>b1\<bar> * \<bar>a2\<bar> \<le> hypot a1 b1 * hypot a2 b2"
    by (intro mult_mono abs_le_hypot_left abs_le_hypot_right) simp_all
  ultimately show ?thesis
    by linarith
qed

lemma cube_small:
  fixes t :: real
  assumes "0 \<le> x" and "0 \<le> y" and "x \<le> t" and "y \<le> t" and "t \<le> 1 / 2 ^ 359"
  shows "x * y * t \<le> underflowAt"
proof -
  have t: "0 \<le> t"
    using assms by linarith
  have "x * y \<le> t * t"
    using assms t by (intro mult_mono) simp_all
  then have "x * y * t \<le> t * t * t"
    using t by (intro mult_right_mono)
  also have "t * t * t = t ^ 3"
    by (simp add: power3_eq_cube)
  also have "t ^ 3 \<le> (1 / 2 ^ 359) ^ 3"
    using assms(5) t by (intro power_mono)
  finally show ?thesis
    using small_cube by linarith
qed

lemma kappa_finite:
  assumes a1: "\<bar>a1\<bar> \<le> c" and b1: "\<bar>b1\<bar> \<le> c" and a2: "\<bar>a2\<bar> \<le> c" and b2: "\<bar>b2\<bar> \<le> c"
    and c1: "1 \<le> c" and big: "16 * c ^ 3 < overflowAt"
  shows "isFinite
     (d_div (d_sub (d_mul (Dbl a1) (Dbl b2)) (d_mul (Dbl b1) (Dbl a2)))
        (d_or1 (d_mul (d_mul (d_hypot (Dbl a1) (Dbl b1)) (d_hypot (Dbl a2) (Dbl b2)))
                      (d_add (d_hypot (Dbl a1) (Dbl b1)) (d_hypot (Dbl a2) (Dbl b2))))))"
proof -
  define H1 where "H1 = hypot a1 b1"
  define H2 where "H2 = hypot a2 b2"
  have cc: "c \<le> c * c"
    using c1 by simp
  have ccc: "c * c \<le> c ^ 3"
    using c1 by (simp add: power3_eq_cube)
  have H1: "0 \<le> H1" "H1 \<le> 2 * c"
    using hypot_le_sum [of a1 b1] a1 b1 by (simp_all add: H1_def)
  have H2: "0 \<le> H2" "H2 \<le> 2 * c"
    using hypot_le_sum [of a2 b2] a2 b2 by (simp_all add: H2_def)
  have "\<bar>H1\<bar> < overflowAt"
    using H1 cc ccc big by linarith
  then obtain h1 where h1: "fl H1 = Dbl h1" "\<bar>h1\<bar> \<le> \<bar>H1\<bar>" "h1 = 0 \<or> h1 = H1 \<and> underflowAt < \<bar>H1\<bar>"
    by (rule fl_value)
  have "\<bar>H2\<bar> < overflowAt"
    using H2 cc ccc big by linarith
  then obtain h2 where h2: "fl H2 = Dbl h2" "\<bar>h2\<bar> \<le> \<bar>H2\<bar>" "h2 = 0 \<or> h2 = H2 \<and> underflowAt < \<bar>H2\<bar>"
    by (rule fl_value)
  have h1b: "0 \<le> h1" "h1 \<le> 2 * c"
    using h1 H1 by auto
  have h2b: "0 \<le> h2" "h2 \<le> 2 * c"
    using h2 H2 by auto
  have hh: "h1 * h2 \<le> (2 * c) * (2 * c)"
    using h1b h2b by (intro mult_mono) simp_all
  have hh0: "0 \<le> h1 * h2"
    using h1b h2b by simp
  have "\<bar>h1 * h2\<bar> < overflowAt"
    using hh hh0 ccc big by simp
  then obtain p where p: "fl (h1 * h2) = Dbl p" "\<bar>p\<bar> \<le> \<bar>h1 * h2\<bar>" "p = 0 \<or> p = h1 * h2 \<and> underflowAt < \<bar>h1 * h2\<bar>"
    by (rule fl_value)
  have "\<bar>h1 + h2\<bar> < overflowAt"
    using h1b h2b cc ccc big by simp
  then obtain s where s: "fl (h1 + h2) = Dbl s" "\<bar>s\<bar> \<le> \<bar>h1 + h2\<bar>" "s = 0 \<or> s = h1 + h2 \<and> underflowAt < \<bar>h1 + h2\<bar>"
    by (rule fl_value)
  have pb: "\<bar>p\<bar> \<le> 4 * (c * c)"
    using p(2) hh hh0 by simp
  have sb: "\<bar>s\<bar> \<le> 4 * c"
    using s(2) h1b h2b by simp
  have "\<bar>p\<bar> * \<bar>s\<bar> \<le> (4 * (c * c)) * (4 * c)"
    using pb sb by (intro mult_mono) simp_all
  then have "\<bar>p * s\<bar> < overflowAt"
    using big by (simp add: abs_mult power3_eq_cube)
  then obtain D where D: "fl (p * s) = Dbl D" "D = 0 \<or> D = p * s \<and> underflowAt < \<bar>p * s\<bar>"
    by (rule fl_value)
  have denom: "d_mul (d_mul (d_hypot (Dbl a1) (Dbl b1)) (d_hypot (Dbl a2) (Dbl b2)))
                  (d_add (d_hypot (Dbl a1) (Dbl b1)) (d_hypot (Dbl a2) (Dbl b2))) = Dbl D"
    using h1(1) h2(1) p(1) s(1) D(1) by (simp add: H1_def H2_def)
  have m1b: "\<bar>a1 * b2\<bar> \<le> c * c"
    unfolding abs_mult using a1 b2 by (intro mult_mono) simp_all
  have m2b: "\<bar>b1 * a2\<bar> \<le> c * c"
    unfolding abs_mult using b1 a2 by (intro mult_mono) simp_all
  have "\<bar>a1 * b2\<bar> < overflowAt"
    using m1b ccc big by linarith
  then obtain m1 where m1: "fl (a1 * b2) = Dbl m1" "\<bar>m1\<bar> \<le> \<bar>a1 * b2\<bar>"
    by (rule fl_value)
  have "\<bar>b1 * a2\<bar> < overflowAt"
    using m2b ccc big by linarith
  then obtain m2 where m2: "fl (b1 * a2) = Dbl m2" "\<bar>m2\<bar> \<le> \<bar>b1 * a2\<bar>"
    by (rule fl_value)
  have "\<bar>m1 + - m2\<bar> < overflowAt"
    using m1(2) m2(2) m1b m2b ccc big by linarith
  then obtain cr where cr: "fl (m1 + - m2) = Dbl cr" "\<bar>cr\<bar> \<le> \<bar>m1 + - m2\<bar>"
    by (rule fl_value)
  have cross: "d_sub (d_mul (Dbl a1) (Dbl b2)) (d_mul (Dbl b1) (Dbl a2)) = Dbl cr"
    using m1(1) m2(1) cr(1) by (simp add: d_sub_def)
  have crb: "\<bar>cr\<bar> \<le> \<bar>a1\<bar> * \<bar>b2\<bar> + \<bar>b1\<bar> * \<bar>a2\<bar>"
    using cr(2) m1(2) m2(2) unfolding abs_mult by linarith
  show ?thesis
  proof (cases "D = 0")
    case True
    have "0 \<le> c ^ 3"
      using c1 by simp
    then have "\<bar>cr\<bar> < overflowAt"
      using crb m1b m2b ccc big unfolding abs_mult by linarith
    then show ?thesis
      unfolding denom cross using True by (simp add: d_or1_def isFinite_fl)
  next
    case False
    then have Dv: "D = p * s" "underflowAt < \<bar>p * s\<bar>"
      using D(2) by auto
    then have "p \<noteq> 0" "s \<noteq> 0"
      using False by auto
    then have ps: "p = h1 * h2" "s = h1 + h2"
      using p(3) s(3) by auto
    then have "h1 \<noteq> 0" "h2 \<noteq> 0"
      using \<open>p \<noteq> 0\<close> by auto
    then have hH: "h1 = H1" "h2 = H2"
      using h1(3) h2(3) by auto
    define t where "t = H1 + H2"
    have D_eq: "D = H1 * H2 * t"
      using Dv(1) ps hH by (simp add: t_def)
    have pos: "0 < H1" "0 < H2"
      using H1(1) H2(1) hH \<open>h1 \<noteq> 0\<close> \<open>h2 \<noteq> 0\<close> by auto
    have tpos: "0 < t"
      using pos by (simp add: t_def)
    have Dpos: "0 < D"
      unfolding D_eq using pos tpos by simp
    have "underflowAt < H1 * H2 * t"
      using Dv(2) Dpos Dv(1) D_eq by simp
    moreover have "H1 * H2 * t \<le> underflowAt" if "t \<le> 1 / 2 ^ 359"
      using H1(1) H2(1) that by (intro cube_small) (simp_all add: t_def)
    ultimately have tbig: "1 / 2 ^ 359 < t"
      by (rule_tac ccontr) (simp add: not_less)
    have "\<bar>cr\<bar> \<le> 2 * (H1 * H2)"
      using crb cross_le_lengths [of a1 b2 b1 a2] by (simp add: H1_def H2_def)
    then have "\<bar>cr\<bar> * t \<le> 2 * (H1 * H2) * t"
      using tpos by (intro mult_right_mono) simp_all
    then have "\<bar>cr\<bar> * t \<le> 2 * D"
      by (simp add: D_eq)
    then have "\<bar>cr\<bar> / D \<le> 2 / t"
      using Dpos tpos by (simp add: field_simps)
    moreover have "2 / t < 2 ^ 360"
    proof -
      have "2 = 2 ^ 360 * (1 / 2 ^ 359 :: real)"
        by simp
      also have "2 ^ 360 * (1 / 2 ^ 359) < 2 ^ 360 * t"
        using tbig by (intro mult_strict_left_mono) simp_all
      finally show ?thesis
        using tpos by (simp add: field_simps)
    qed
    ultimately have "\<bar>cr / D\<bar> < overflowAt"
      using pow360_lt_overflowAt Dpos by simp
    then show ?thesis
      unfolding denom cross using False by (simp add: d_or1_def isFinite_fl)
  qed
qed

lemma computeCurvatureD_nth:
  "i < length pts \<Longrightarrow> computeCurvatureD pts ! i = pushed (curvatureBodyD pts i)"
  by (simp add: computeCurvatureD_def)

lemma fl_0: "fl 0 = Dbl 0"
  using overflowAt_pos underflowAt_pos by (simp add: fl_def)

lemma fl_1: "fl 1 = Dbl 1"
  by (simp add: fl_def overflowAt_def underflowAt_def)

lemma fl_half: "fl (1 / 2) = Dbl (1 / 2)"
  by (simp add: fl_def overflowAt_def underflowAt_def)

lemma fl_far: "fl (2 ^ 1023) = Dbl (2 ^ 1023)" "fl (- (2 ^ 1023)) = Dbl (- (2 ^ 1023))"
  by (simp_all add: fl_def overflowAt_def underflowAt_def)

lemma fl_too_far: "fl (- (2 ^ 1023) - 2 ^ 1023) = DNegInf"
  by (simp add: fl_def overflowAt_def underflowAt_def)

lemma far_body:
  assumes "fl x = Dbl x" and "fl (- x - x) = DNegInf" and "0 < x"
  shows "pushed (curvatureBodyD [\<lparr>px = x, py = 0\<rparr>, \<lparr>px = - x, py = 0\<rparr>, \<lparr>px = 0, py = 0\<rparr>] (Suc 0))
       = \<lparr>kappaD = DNaN, txD = DNaN, tyD = Dbl 0\<rparr>"
  using assms by (simp add: curvatureBodyD_def Let_def d_sub_def d_or1_def fl_0)

lemma length_farApart: "length farApart = 3"
  by (simp add: farApart_def)

lemma length_stalled: "length stalled = 4"
  by (simp add: stalled_def)

text \<open>
  C6 as stated is refuted: the three points of \<open>farApart\<close> have finite coordinates, but the
  difference of the first two overflows to \<open>-Infinity\<close>, the cross product is
  \<open>-Infinity * 0 - 0 * 2^1023 = NaN\<close> and the curvature pushed for the second point is
  \<open>NaN / Infinity = NaN\<close>; so is its first tangent component, \<open>-Infinity / Infinity\<close>.
\<close>

theorem C6_counterexample:
  "map (\<lambda>p. (fl (px p), fl (py p))) farApart
     = [(Dbl (2 ^ 1023), Dbl 0), (Dbl (- (2 ^ 1023)), Dbl 0), (Dbl 0, Dbl 0)] \<and>
   computeCurvatureD farApart ! 1 = \<lparr>kappaD = DNaN, txD = DNaN, tyD = Dbl 0\<rparr> \<and>
   isFinite (kappaD (computeCurvatureD farApart ! 1)) = False"
proof -
  have body: "pushed (curvatureBodyD farApart (Suc 0)) = \<lparr>kappaD = DNaN, txD = DNaN, tyD = Dbl 0\<rparr>"
    unfolding farApart_def by (rule far_body [OF fl_far(1) fl_too_far]) simp
  have "map (\<lambda>p. (fl (px p), fl (py p))) farApart
     = [(Dbl (2 ^ 1023), Dbl 0), (Dbl (- (2 ^ 1023)), Dbl 0), (Dbl 0, Dbl 0)]"
    by (simp only: farApart_def list.map point.select_convs fl_0 fl_far)
  then show ?thesis
    using body by (simp add: computeCurvatureD_nth length_farApart)
qed

text \<open>
  C6, amended: for every closed path whose coordinates have magnitude at most \<open>1e100\<close>,
  coincident consecutive points included, neither divisor of \<open>computeCurvature\<close> is zero
  (a zero denominator or tangent length is replaced by 1), and the curvature and both
  tangent components pushed for every sample are finite numbers.
\<close>

theorem C6_curvature_finite:
  assumes bound: "\<forall>p\<in>set pts. \<bar>px p\<bar> \<le> 10 ^ 100 \<and> \<bar>py p\<bar> \<le> 10 ^ 100"
    and i: "i < length pts"
  shows "denomD (curvatureBodyD pts i) \<noteq> Dbl 0 \<and>
         tlenD (curvatureBodyD pts i) \<noteq> Dbl 0 \<and>
         isFinite (kappaD (computeCurvatureD pts ! i)) \<and>
         isFinite (txD (computeCurvatureD pts ! i)) \<and>
         isFinite (tyD (computeCurvatureD pts ! i))"
proof -
  define n where "n = length pts"
  define p0 where "p0 = pts ! ((i + n - 1) mod n)"
  define p1 where "p1 = pts ! i"
  define p2 where "p2 = pts ! ((i + 1) mod n)"
  define c :: real where "c = 2 * 10 ^ 100"
  have n: "0 < n"
    using i unfolding n_def by (rule le_less_trans [OF le0])
  have "p0 \<in> set pts" "p1 \<in> set pts" "p2 \<in> set pts"
    using i n by (simp_all add: p0_def p1_def p2_def n_def)
  then have b: "\<bar>px p0\<bar> \<le> 10 ^ 100" "\<bar>py p0\<bar> \<le> 10 ^ 100" "\<bar>px p1\<bar> \<le> 10 ^ 100"
    "\<bar>py p1\<bar> \<le> 10 ^ 100" "\<bar>px p2\<bar> \<le> 10 ^ 100" "\<bar>py p2\<bar> \<le> 10 ^ 100"
    using bound by simp_all
  have c1: "1 \<le> c"
    by (simp add: c_def)
  have big: "16 * c ^ 3 < overflowAt"
    using big_lt_overflowAt by (simp add: c_def power_mult_distrib)
  have c2: "2 * c < overflowAt"
  proof -
    have "c \<le> c * c"
      using c1 by simp
    moreover have "c * c \<le> c ^ 3"
      using c1 by (simp add: power3_eq_cube)
    moreover have "0 \<le> c ^ 3"
      using c1 by simp
    ultimately show ?thesis
      using big by linarith
  qed
  have c0: "2 * 10 ^ 100 < overflowAt"
    using c2 c1 by (simp add: c_def)
  obtain a1 where a1: "d_sub (Dbl (px p1)) (Dbl (px p0)) = Dbl a1" "\<bar>a1\<bar> \<le> c"
    unfolding c_def using b(3) b(1) c0 by (rule diff_value)
  obtain b1 where b1: "d_sub (Dbl (py p1)) (Dbl (py p0)) = Dbl b1" "\<bar>b1\<bar> \<le> c"
    unfolding c_def using b(4) b(2) c0 by (rule diff_value)
  obtain a2 where a2: "d_sub (Dbl (px p2)) (Dbl (px p1)) = Dbl a2" "\<bar>a2\<bar> \<le> c"
    unfolding c_def using b(5) b(3) c0 by (rule diff_value)
  obtain b2 where b2: "d_sub (Dbl (py p2)) (Dbl (py p1)) = Dbl b2" "\<bar>b2\<bar> \<le> c"
    unfolding c_def using b(6) b(4) c0 by (rule diff_value)
  obtain u where u: "d_div (d_add (Dbl a1) (Dbl a2)) (Dbl 2) = Dbl u" "\<bar>u\<bar> \<le> c"
    using a1(2) a2(2) c2 by (rule half_value)
  obtain w where w: "d_div (d_add (Dbl b1) (Dbl b2)) (Dbl 2) = Dbl w" "\<bar>w\<bar> \<le> c"
    using b1(2) b2(2) c2 by (rule half_value)
  have body: "curvatureBodyD pts i =
     \<lparr>denomD = d_or1 (d_mul (d_mul (d_hypot (Dbl a1) (Dbl b1)) (d_hypot (Dbl a2) (Dbl b2)))
                           (d_add (d_hypot (Dbl a1) (Dbl b1)) (d_hypot (Dbl a2) (Dbl b2)))),
      tlenD = d_or1 (fl (hypot u w)),
      pushed = \<lparr>kappaD =
          d_div (d_sub (d_mul (Dbl a1) (Dbl b2)) (d_mul (Dbl b1) (Dbl a2)))
            (d_or1 (d_mul (d_mul (d_hypot (Dbl a1) (Dbl b1)) (d_hypot (Dbl a2) (Dbl b2)))
                          (d_add (d_hypot (Dbl a1) (Dbl b1)) (d_hypot (Dbl a2) (Dbl b2))))),
        txD = d_div (Dbl u) (d_or1 (fl (hypot u w))),
        tyD = d_div (Dbl w) (d_or1 (fl (hypot u w)))\<rparr>\<rparr>"
    unfolding curvatureBodyD_def Let_def
    unfolding n_def [symmetric] p0_def [symmetric] p1_def [symmetric] p2_def [symmetric]
    unfolding a1(1) b1(1) a2(1) b2(1) u(1) w(1)
    by simp
  have "isFinite (d_div (d_sub (d_mul (Dbl a1) (Dbl b2)) (d_mul (Dbl b1) (Dbl a2)))
            (d_or1 (d_mul (d_mul (d_hypot (Dbl a1) (Dbl b1)) (d_hypot (Dbl a2) (Dbl b2)))
                          (d_add (d_hypot (Dbl a1) (Dbl b1)) (d_hypot (Dbl a2) (Dbl b2))))))"
    using a1(2) b1(2) a2(2) b2(2) c1 big by (rule kappa_finite)
  moreover have "isFinite (d_div (Dbl u) (d_or1 (fl (hypot u w))))"
    using u(2) c2 by (rule unit_finite(1))
  moreover have "isFinite (d_div (Dbl w) (d_or1 (fl (hypot u w))))"
    using w(2) c2 by (rule unit_finite(2))
  ultimately show ?thesis
    using i by (simp add: computeCurvatureD_nth body d_or1_nonzero)
qed

text \<open>
  On \<open>stalled\<close> the third sample coincides with the second: the incoming length and the
  denominator are 0, the divisor is 1 and the curvature is 0; the tangent is \<open>(0, 1)\<close>.
\<close>

theorem C6_curvature_finite_witness:
  "curvatureBodyD stalled 2
     = \<lparr>denomD = Dbl 1, tlenD = Dbl (1 / 2),
        pushed = \<lparr>kappaD = Dbl 0, txD = Dbl 0, tyD = Dbl 1\<rparr>\<rparr> \<and>
   denomD (curvatureBodyD stalled 2) \<noteq> Dbl 0 \<and>
   tlenD (curvatureBodyD stalled 2) \<noteq> Dbl 0 \<and>
   isFinite (kappaD (computeCurvatureD stalled ! 2)) \<and>
   isFinite (txD (computeCurvatureD stalled ! 2)) \<and>
   isFinite (tyD (computeCurvatureD stalled ! 2))"
proof
  show "curvatureBodyD stalled 2
     = \<lparr>denomD = Dbl 1, tlenD = Dbl (1 / 2),
        pushed = \<lparr>kappaD = Dbl 0, txD = Dbl 0, tyD = Dbl 1\<rparr>\<rparr>"
    by (simp add: curvatureBodyD_def Let_def stalled_def d_sub_def d_or1_def fl_0 fl_1 fl_half)
  show "denomD (curvatureBodyD stalled 2) \<noteq> Dbl 0 \<and>
   tlenD (curvatureBodyD stalled 2) \<noteq> Dbl 0 \<and>
   isFinite (kappaD (computeCurvatureD stalled ! 2)) \<and>
   isFinite (txD (computeCurvatureD stalled ! 2)) \<and>
   isFinite (tyD (computeCurvatureD stalled ! 2))"
    using C6_curvature_finite [of stalled 2] by (simp add: stalled_def)
qed

text \<open>The model over the reals computes the same curvature and tangent there.\<close>

lemma curvatureAt_stalled: "curvatureAt stalled 2 = \<lparr>kappa = 0, tx = 0, ty = 1\<rparr>"
  by (simp add: curvatureAt_def Let_def orElse1_def stalled_def)

end
